theory Spec2Isabelle
  imports Main "HOL-Library.AList"
begin

section \<open>Data model (convex/lib/gameLogic.ts, interfaces)\<close>

text \<open>
  Document ids are opaque strings in the source (one id type per table); they are only ever
  compared for equality, so they are modelled as natural numbers. Field names carry a prefix
  where two interfaces share a name. Scores and timestamps are JavaScript numbers holding
  integers; they are modelled as \<open>int\<close>.
\<close>

type_synonym id = nat

datatype playerStatus = Connected | Disconnected | Kicked

record player =
  p_id :: id
  p_roomId :: id
  p_status :: playerStatus
  p_score :: int

record prompt =
  pr_id :: id
  pr_roundId :: id
  pr_playerId :: id

record generatedImage =
  im_id :: id
  im_promptId :: id

record vote =
  v_id :: id
  v_roundId :: id
  voterId :: id
  imageId :: id

record votingEligibility =
  playerId :: id
  isEligible :: bool
  reason :: string

datatype scoreReason = Winner | WinnerTie | Participation

record scoreResult =
  sr_playerId :: id
  pointsAwarded :: int
  sr_reason :: scoreReason

record scoreConfig =
  pointsPerWin :: int
  pointsPerVote :: int

section \<open>Completion evaluator (convex/lib/gameLogic.ts)\<close>

text \<open>\<open>calculateVotingEligibility\<close>: one result per player, in the order of the input list.\<close>

definition eligibilityOf :: "prompt list \<Rightarrow> player \<Rightarrow> votingEligibility" where
  "eligibilityOf prompts pl =
     (if p_status pl \<noteq> Connected then
        \<lparr>playerId = p_id pl, isEligible = False, reason = ''Player is not connected''\<rparr>
      else
        (let playerSubmittedPrompt = list_ex (\<lambda>p. pr_playerId p = p_id pl) prompts;
             hasOtherPlayersImages = list_ex (\<lambda>p. pr_playerId p \<noteq> p_id pl) prompts
         in if hasOtherPlayersImages then
              \<lparr>playerId = p_id pl, isEligible = True,
               reason = ''Can vote on other players' images''\<rparr>
            else if \<not> playerSubmittedPrompt then
              \<lparr>playerId = p_id pl, isEligible = True,
               reason = ''Did not submit prompt, can vote on all images''\<rparr>
            else
              \<lparr>playerId = p_id pl, isEligible = False,
               reason = ''Only own image available''\<rparr>))"

fun calculateVotingEligibility :: "player list \<Rightarrow> prompt list \<Rightarrow> votingEligibility list" where
  "calculateVotingEligibility [] prompts = []"
| "calculateVotingEligibility (pl # rest) prompts =
     eligibilityOf prompts pl # calculateVotingEligibility rest prompts"

definition haveAllEligiblePlayersVoted :: "votingEligibility list \<Rightarrow> vote list \<Rightarrow> bool" where
  "haveAllEligiblePlayersVoted eligibility votes =
     (let votedPlayerIds = set (map voterId votes);
          eligiblePlayers = filter isEligible eligibility
      in if length eligiblePlayers = 0 then False
         else list_all (\<lambda>e. playerId e \<in> votedPlayerIds) eligiblePlayers)"

definition shouldTriggerEarlyPromptTransition :: "player list \<Rightarrow> prompt list \<Rightarrow> bool" where
  "shouldTriggerEarlyPromptTransition connectedPlayers prompts =
     (let connectedPlayerIds = map p_id (filter (\<lambda>p. p_status p = Connected) connectedPlayers)
      in if length connectedPlayerIds = 0 then False
         else (let submittedPlayerIds = set (map pr_playerId prompts)
               in list_all (\<lambda>i. i \<in> submittedPlayerIds) connectedPlayerIds))"

definition shouldTriggerEarlyVotingTransition ::
  "player list \<Rightarrow> prompt list \<Rightarrow> vote list \<Rightarrow> bool" where
  "shouldTriggerEarlyVotingTransition connectedPlayers prompts votes =
     haveAllEligiblePlayersVoted (calculateVotingEligibility connectedPlayers prompts) votes"

text \<open>
  A JavaScript \<open>Map\<close> keeps its keys distinct and in insertion order: \<open>set\<close> on a present
  key replaces the value in place, on an absent key appends the entry. That is
  \<^const>\<open>AList.update\<close> on an association list; \<open>get\<close> is \<^const>\<open>map_of\<close>.
  \<open>voteCounts.get(id) || 0\<close> reads an absent key as 0.
\<close>

definition countVote :: "vote \<Rightarrow> (id \<times> nat) list \<Rightarrow> (id \<times> nat) list" where
  "countVote v voteCounts =
     (let count = (case map_of voteCounts (imageId v) of None \<Rightarrow> 0 | Some c \<Rightarrow> c)
      in AList.update (imageId v) (count + 1) voteCounts)"

definition countVotesPerImage :: "vote list \<Rightarrow> (id \<times> nat) list" where
  "countVotesPerImage votes = fold countVote votes []"

text \<open>
  \<open>Math.max(...values)\<close>. On no arguments JavaScript yields \<open>-Infinity\<close>; the only caller
  returns before the call when the map is empty, so that case is never evaluated.
\<close>

fun mathMax :: "nat list \<Rightarrow> nat" where
  "mathMax [] = 0"
| "mathMax (v # vs) = fold max vs v"

definition findWinningImages :: "(id \<times> nat) list \<Rightarrow> id list" where
  "findWinningImages voteCounts =
     (if length voteCounts = 0 then []
      else (let maxVotes = mathMax (map snd voteCounts)
            in if maxVotes = 0 then []
               else map fst (filter (\<lambda>(imgId, count). count = maxVotes) voteCounts)))"

text \<open>\<open>calculateRoundScores\<close>: the winners' loop, then the participation loop.\<close>

fun winnerResults ::
  "generatedImage list \<Rightarrow> prompt list \<Rightarrow> int \<Rightarrow> scoreReason \<Rightarrow> id list \<Rightarrow> scoreResult list" where
  "winnerResults images prompts pts rsn [] = []"
| "winnerResults images prompts pts rsn (imgId # rest) =
     (case find (\<lambda>i. im_id i = imgId) images of
        None \<Rightarrow> winnerResults images prompts pts rsn rest
      | Some img \<Rightarrow>
          (case find (\<lambda>p. pr_id p = im_promptId img) prompts of
             None \<Rightarrow> winnerResults images prompts pts rsn rest
           | Some pr \<Rightarrow>
               \<lparr>sr_playerId = pr_playerId pr, pointsAwarded = pts, sr_reason = rsn\<rparr>
                 # winnerResults images prompts pts rsn rest))"

fun participationResults :: "int \<Rightarrow> id set \<Rightarrow> vote list \<Rightarrow> scoreResult list" where
  "participationResults pts voterPlayerIds [] = []"
| "participationResults pts voterPlayerIds (v # rest) =
     (if voterId v \<notin> voterPlayerIds then
        \<lparr>sr_playerId = voterId v, pointsAwarded = pts, sr_reason = Participation\<rparr>
          # participationResults pts (insert (voterId v) voterPlayerIds) rest
      else participationResults pts voterPlayerIds rest)"

definition calculateRoundScores ::
  "vote list \<Rightarrow> generatedImage list \<Rightarrow> prompt list \<Rightarrow> scoreConfig \<Rightarrow> scoreResult list" where
  "calculateRoundScores votes images prompts config =
     (let voteCounts = countVotesPerImage votes;
          winningImageIds = findWinningImages voteCounts;
          won = (if length winningImageIds > 0 then
                   (let pointsPerWinner = pointsPerWin config div int (length winningImageIds)
                    in winnerResults images prompts pointsPerWinner
                         (if length winningImageIds > 1 then WinnerTie else Winner)
                         winningImageIds)
                 else [])
      in won @ participationResults (pointsPerVote config) {} votes)"

section \<open>The store and the scheduler\<close>

text \<open>
  The round status is a closed set of string literals in the source. \<open>GAME_CONFIG\<close>
  (convex/lib/constants) is a parameter of the model. Optional fields are options; a
  JavaScript truthiness test on an optional number is false for an absent field and for 0,
  on an optional id it is false for an absent field only (ids are non-empty strings).
\<close>

datatype roundStatus = Prompt | Generating | Voting | Results | Complete

record round =
  rd_roomId :: id
  rd_roundNumber :: nat
  rd_status :: roundStatus
  phaseEndTime :: "int option"
  scheduledTransitionId :: "id option"
  generationStartedAt :: "int option"
  generationExpectedCount :: "nat option"
  generationCompletedCount :: "nat option"
  generationCompletedAt :: "int option"
  generationError :: "string option"
  endedAt :: "int option"

record room =
  currentRound :: "nat option"
  roundsPerGame :: nat

record gameConfig =
  PROMPT_PHASE_DURATION :: int
  GENERATION_PHASE_DURATION :: int
  VOTING_PHASE_DURATION :: int
  RESULTS_PHASE_DURATION :: int
  POINTS_PER_WIN :: int
  POINTS_PER_VOTE :: int

text \<open>The functions handed to the scheduler, with their arguments.\<close>

datatype job =
    TransitionPhase id
  | VerifyAndTriggerGeneration id "nat option"
  | GenerateAIImages id
  | CalculateScores id
  | StartNextRound id
  | EndGame id

text \<open>
  The state a mutation runs against: the tables it reads and writes and the scheduler's
  queue of pending jobs (handle, due time, function). Handles are issued from a counter.
  Within one mutation \<open>Date.now()\<close> is one value, the parameter \<open>now\<close>.
\<close>

record world =
  rounds :: "id \<rightharpoonup> round"
  rooms :: "id \<rightharpoonup> room"
  players :: "player list"
  prompts :: "prompt list"
  images :: "generatedImage list"
  votes :: "vote list"
  scheduler :: "(id \<times> int \<times> job) list"
  nextJobId :: id

datatype error = DocumentNotFound

definition runAt :: "int \<Rightarrow> job \<Rightarrow> world \<Rightarrow> id \<times> world" where
  "runAt t j w =
     (nextJobId w, w\<lparr>scheduler := scheduler w @ [(nextJobId w, t, j)],
                      nextJobId := Suc (nextJobId w)\<rparr>)"

definition runAfter :: "int \<Rightarrow> job \<Rightarrow> int \<Rightarrow> world \<Rightarrow> id \<times> world" where
  "runAfter delayMs j now w = runAt (now + delayMs) j w"

text \<open>\<open>scheduler.cancel\<close> sits in a try/catch in every caller: a handle that is no longer
  pending leaves the queue as it is.\<close>

definition cancel :: "id \<Rightarrow> world \<Rightarrow> world" where
  "cancel h w = w\<lparr>scheduler := filter (\<lambda>s. fst s \<noteq> h) (scheduler w)\<rparr>"

text \<open>\<open>db.patch\<close> on a round that the mutation has loaded.\<close>

definition patchRound :: "id \<Rightarrow> (round \<Rightarrow> round) \<Rightarrow> world \<Rightarrow> world" where
  "patchRound rid f w =
     (case rounds w rid of None \<Rightarrow> w | Some r \<Rightarrow> w\<lparr>rounds := (rounds w)(rid \<mapsto> f r)\<rparr>)"

definition patchPlayer :: "id \<Rightarrow> (player \<Rightarrow> player) \<Rightarrow> world \<Rightarrow> world" where
  "patchPlayer pid f w =
     w\<lparr>players := map (\<lambda>q. if p_id q = pid then f q else q) (players w)\<rparr>"

definition getPromptsForRound :: "id \<Rightarrow> world \<Rightarrow> prompt list" where
  "getPromptsForRound roundId w = filter (\<lambda>p. pr_roundId p = roundId) (prompts w)"

section \<open>Phase transitions (the phases module, convex/game/generation.ts from line 351)\<close>

definition getPhaseDuration :: "gameConfig \<Rightarrow> roundStatus \<Rightarrow> int" where
  "getPhaseDuration cfg st =
     (case st of
        Prompt \<Rightarrow> PROMPT_PHASE_DURATION cfg
      | Generating \<Rightarrow> GENERATION_PHASE_DURATION cfg
      | Voting \<Rightarrow> VOTING_PHASE_DURATION cfg
      | Results \<Rightarrow> RESULTS_PHASE_DURATION cfg
      | Complete \<Rightarrow> 0)"

definition MINIMUM_PHASE_DURATION_MS :: int where
  "MINIMUM_PHASE_DURATION_MS = 1000"

text \<open>The test that makes \<open>transitionPhase\<close> return early (lines 402 to 414).\<close>

definition duplicateTransition :: "gameConfig \<Rightarrow> int \<Rightarrow> round \<Rightarrow> bool" where
  "duplicateTransition cfg now r =
     (case phaseEndTime r of
        None \<Rightarrow> False
      | Some pet \<Rightarrow>
          if pet \<noteq> 0 \<and> rd_status r \<noteq> Generating \<and> rd_status r \<noteq> Complete then
            (let phaseDuration = getPhaseDuration cfg (rd_status r);
                 phaseStartTime = pet - phaseDuration;
                 timeInPhase = now - phaseStartTime
             in timeInPhase < MINIMUM_PHASE_DURATION_MS)
          else False)"

definition promptToGenerating :: "gameConfig \<Rightarrow> int \<Rightarrow> id \<Rightarrow> world \<Rightarrow> world" where
  "promptToGenerating cfg now roundId w =
     (let prs = getPromptsForRound roundId w;
          w1 = patchRound roundId (\<lambda>r. r\<lparr>rd_status := Generating,
                 phaseEndTime := Some (now + GENERATION_PHASE_DURATION cfg),
                 generationStartedAt := Some now,
                 generationExpectedCount := Some (length prs),
                 generationCompletedCount := Some 0\<rparr>) w;
          w2 = snd (runAfter 1000 (VerifyAndTriggerGeneration roundId (Some 0)) now w1);
          (h, w3) = runAt (now + GENERATION_PHASE_DURATION cfg) (TransitionPhase roundId) w2
      in patchRound roundId (\<lambda>r. r\<lparr>scheduledTransitionId := Some h\<rparr>) w3)"

definition generatingToVoting :: "gameConfig \<Rightarrow> int \<Rightarrow> id \<Rightarrow> world \<Rightarrow> world" where
  "generatingToVoting cfg now roundId w =
     (let w1 = patchRound roundId (\<lambda>r. r\<lparr>rd_status := Voting,
                 phaseEndTime := Some (now + VOTING_PHASE_DURATION cfg)\<rparr>) w;
          (h, w2) = runAt (now + VOTING_PHASE_DURATION cfg) (TransitionPhase roundId) w1
      in patchRound roundId (\<lambda>r. r\<lparr>scheduledTransitionId := Some h\<rparr>) w2)"

definition votingToResults :: "gameConfig \<Rightarrow> int \<Rightarrow> id \<Rightarrow> world \<Rightarrow> world" where
  "votingToResults cfg now roundId w =
     (let w1 = patchRound roundId (\<lambda>r. r\<lparr>rd_status := Results,
                 phaseEndTime := Some (now + RESULTS_PHASE_DURATION cfg)\<rparr>) w;
          w2 = snd (runAfter 0 (CalculateScores roundId) now w1);
          (h, w3) = runAt (now + RESULTS_PHASE_DURATION cfg) (TransitionPhase roundId) w2
      in patchRound roundId (\<lambda>r. r\<lparr>scheduledTransitionId := Some h\<rparr>) w3)"

definition moreRounds :: "room option \<Rightarrow> bool" where
  "moreRounds rm =
     (case rm of
        None \<Rightarrow> False
      | Some room \<Rightarrow>
          (case currentRound room of
             None \<Rightarrow> False
           | Some n \<Rightarrow> n \<noteq> 0 \<and> n < roundsPerGame room))"

definition resultsToComplete :: "int \<Rightarrow> id \<Rightarrow> round \<Rightarrow> world \<Rightarrow> world" where
  "resultsToComplete now roundId r w =
     (let w1 = patchRound roundId (\<lambda>r. r\<lparr>rd_status := Complete, endedAt := Some now\<rparr>) w
      in if moreRounds (rooms w1 (rd_roomId r))
         then snd (runAfter 2000 (StartNextRound (rd_roomId r)) now w1)
         else snd (runAfter 0 (EndGame (rd_roomId r)) now w1))"

definition transitionPhase :: "gameConfig \<Rightarrow> int \<Rightarrow> id \<Rightarrow> world \<Rightarrow> world" where
  "transitionPhase cfg now roundId w =
     (case rounds w roundId of
        None \<Rightarrow> w
      | Some r \<Rightarrow>
          if duplicateTransition cfg now r then w
          else
            (let w1 = (if scheduledTransitionId r \<noteq> None
                       then patchRound roundId (\<lambda>r. r\<lparr>scheduledTransitionId := None\<rparr>) w
                       else w)
             in case rd_status r of
                  Prompt \<Rightarrow> promptToGenerating cfg now roundId w1
                | Generating \<Rightarrow> generatingToVoting cfg now roundId w1
                | Voting \<Rightarrow> votingToResults cfg now roundId w1
                | Results \<Rightarrow> resultsToComplete now roundId r w1
                | Complete \<Rightarrow> w1))"

section \<open>Generation verification (convex/game/generation.ts)\<close>

text \<open>
  \<open>verifyAndTriggerGeneration\<close> patches the round without loading it first, so the patch
  throws when the round does not exist; that is the only error of the function.
\<close>

definition verifyAndTriggerGeneration ::
  "int \<Rightarrow> id \<Rightarrow> nat option \<Rightarrow> world \<Rightarrow> error + world" where
  "verifyAndTriggerGeneration now roundId retryCountArg w =
     (let retryCount = (case retryCountArg of None \<Rightarrow> 0 | Some n \<Rightarrow> n);
          maxRetries = 3;
          prs = getPromptsForRound roundId w
      in if length prs > 0 then
           Inr (snd (runAfter 0 (GenerateAIImages roundId) now w))
         else if retryCount < maxRetries then
           (let delayMs = (int retryCount + 1) * 1000
            in Inr (snd (runAfter delayMs
                     (VerifyAndTriggerGeneration roundId (Some (retryCount + 1))) now w)))
         else
           (case rounds w roundId of
              None \<Rightarrow> Inl DocumentNotFound
            | Some _ \<Rightarrow>
                Inr (snd (runAfter 2000 (TransitionPhase roundId) now
                  (patchRound roundId (\<lambda>r. r\<lparr>
                     generationError := Some ''No prompts found after 3 retry attempts'',
                     generationCompletedAt := Some now,
                     generationExpectedCount := Some 0,
                     generationCompletedCount := Some 0\<rparr>) w)))))"

section \<open>Early transition out of voting (convex/game/voting.ts)\<close>

definition checkAllPlayersVoted :: "int \<Rightarrow> id \<Rightarrow> world \<Rightarrow> world" where
  "checkAllPlayersVoted now roundId w =
     (case rounds w roundId of
        None \<Rightarrow> w
      | Some r \<Rightarrow>
          if rd_status r \<noteq> Voting then w
          else
            (let connectedPlayers =
                   filter (\<lambda>p. p_roomId p = rd_roomId r \<and> p_status p = Connected) (players w)
             in if length connectedPlayers = 0 then w
                else
                  (let prs = getPromptsForRound roundId w;
                       imgs = map (\<lambda>p. (p, filter (\<lambda>i. im_promptId i = pr_id p) (images w))) prs;
                       totalImages = foldl (\<lambda>sum item. sum + length (snd item)) 0 imgs
                   in if totalImages = 0 then w
                      else
                        (let submittedVotes = filter (\<lambda>v. v_roundId v = roundId) (votes w);
                             eligibility = calculateVotingEligibility connectedPlayers prs;
                             allEligibleVoted =
                               haveAllEligiblePlayersVoted eligibility submittedVotes
                         in if allEligibleVoted then
                              (let w1 = (case scheduledTransitionId r of
                                           Some h \<Rightarrow> cancel h w
                                         | None \<Rightarrow> w);
                                   w2 = patchRound roundId
                                          (\<lambda>r. r\<lparr>scheduledTransitionId := None\<rparr>) w1
                               in snd (runAfter 0 (TransitionPhase roundId) now w2))
                            else w))))"

section \<open>Scoring (convex/game/scoring.ts)\<close>

fun awardWinners :: "int \<Rightarrow> id list \<Rightarrow> world \<Rightarrow> world" where
  "awardWinners pointsPerWinner [] w = w"
| "awardWinners pointsPerWinner (imgId # rest) w =
     (case find (\<lambda>i. im_id i = imgId) (images w) of
        None \<Rightarrow> awardWinners pointsPerWinner rest w
      | Some img \<Rightarrow>
          (case find (\<lambda>p. pr_id p = im_promptId img) (prompts w) of
             None \<Rightarrow> awardWinners pointsPerWinner rest w
           | Some pr \<Rightarrow>
               (case find (\<lambda>p. p_id p = pr_playerId pr) (players w) of
                  None \<Rightarrow> awardWinners pointsPerWinner rest w
                | Some pl \<Rightarrow>
                    awardWinners pointsPerWinner rest
                      (patchPlayer (p_id pl)
                         (\<lambda>q. q\<lparr>p_score := p_score pl + pointsPerWinner\<rparr>) w))))"

fun awardParticipation :: "int \<Rightarrow> id set \<Rightarrow> vote list \<Rightarrow> world \<Rightarrow> world" where
  "awardParticipation pts awardedVoterIds [] w = w"
| "awardParticipation pts awardedVoterIds (v # rest) w =
     (if voterId v \<in> awardedVoterIds then awardParticipation pts awardedVoterIds rest w
      else
        (case find (\<lambda>p. p_id p = voterId v) (players w) of
           Some voter \<Rightarrow>
             awardParticipation pts (insert (voterId v) awardedVoterIds) rest
               (patchPlayer (voterId v) (\<lambda>q. q\<lparr>p_score := p_score voter + pts\<rparr>) w)
         | None \<Rightarrow> awardParticipation pts (insert (voterId v) awardedVoterIds) rest w))"

text \<open>
  Two readings of the store used to state what scoring does: a player's score (\<open>db.get\<close>
  on the players table), and the player that the winners' loop pays for an image, which
  is none when one of its three lookups (image, prompt, player) finds nothing.
\<close>

definition scoreOf :: "world \<Rightarrow> id \<Rightarrow> int option" where
  "scoreOf w pid = map_option p_score (find (\<lambda>p. p_id p = pid) (players w))"

definition imageOwner :: "world \<Rightarrow> id \<Rightarrow> id option" where
  "imageOwner w imgId =
     (case find (\<lambda>i. im_id i = imgId) (images w) of
        None \<Rightarrow> None
      | Some img \<Rightarrow>
          (case find (\<lambda>p. pr_id p = im_promptId img) (prompts w) of
             None \<Rightarrow> None
           | Some pr \<Rightarrow>
               (case find (\<lambda>p. p_id p = pr_playerId pr) (players w) of
                  None \<Rightarrow> None
                | Some pl \<Rightarrow> Some (p_id pl))))"

definition roundVotes :: "id \<Rightarrow> world \<Rightarrow> vote list" where
  "roundVotes roundId w = filter (\<lambda>v. v_roundId v = roundId) (votes w)"

definition calculateScores :: "gameConfig \<Rightarrow> id \<Rightarrow> world \<Rightarrow> world" where
  "calculateScores cfg roundId w =
     (case rounds w roundId of
        None \<Rightarrow> w
      | Some r \<Rightarrow>
          (let vs = roundVotes roundId w;
               voteCounts = countVotesPerImage vs;
               winningImageIds = findWinningImages voteCounts
           in if length winningImageIds = 0 then w
              else
                (let pointsPerWinner = POINTS_PER_WIN cfg div int (length winningImageIds);
                     w1 = awardWinners pointsPerWinner winningImageIds w
                 in awardParticipation (POINTS_PER_VOTE cfg) {} vs w1)))"

section \<open>Early transitions out of prompt and generation (convex/game/prompts.ts, generation.ts)\<close>

definition checkAllPlayersSubmitted :: "int \<Rightarrow> id \<Rightarrow> world \<Rightarrow> world" where
  "checkAllPlayersSubmitted now roundId w =
     (case rounds w roundId of
        None \<Rightarrow> w
      | Some r \<Rightarrow>
          if rd_status r \<noteq> Prompt then w
          else
            (let connectedPlayers =
                   filter (\<lambda>p. p_roomId p = rd_roomId r \<and> p_status p = Connected) (players w)
             in if length connectedPlayers = 0 then w
                else
                  (let submittedPrompts = getPromptsForRound roundId w;
                       submittedPlayerIds = set (map pr_playerId submittedPrompts);
                       allPlayersSubmitted =
                         list_all (\<lambda>p. p_id p \<in> submittedPlayerIds) connectedPlayers
                   in if allPlayersSubmitted then
                        (let w1 = (case scheduledTransitionId r of
                                     Some h \<Rightarrow> cancel h w
                                   | None \<Rightarrow> w);
                             w2 = patchRound roundId
                                    (\<lambda>r. r\<lparr>scheduledTransitionId := None\<rparr>) w1
                         in snd (runAfter 0 (TransitionPhase roundId) now w2))
                      else w)))"

definition checkAllImagesGenerated :: "int \<Rightarrow> id \<Rightarrow> world \<Rightarrow> world" where
  "checkAllImagesGenerated now roundId w =
     (case rounds w roundId of
        None \<Rightarrow> w
      | Some r \<Rightarrow>
          if rd_status r \<noteq> Generating then w
          else
            (let expected = (case generationExpectedCount r of None \<Rightarrow> 0 | Some n \<Rightarrow> n);
                 completed = (case generationCompletedCount r of None \<Rightarrow> 0 | Some n \<Rightarrow> n)
             in if expected > 0 \<and> completed \<ge> expected then
                  (let w1 = (case scheduledTransitionId r of
                               Some h \<Rightarrow>
                                 patchRound roundId
                                   (\<lambda>r. r\<lparr>scheduledTransitionId := None,
                                           generationCompletedAt := Some now\<rparr>)
                                   (cancel h w)
                             | None \<Rightarrow> w)
                   in snd (runAfter 500 (TransitionPhase roundId) now w1))
                else w))"

definition incrementGenerationProgress :: "int \<Rightarrow> id \<Rightarrow> world \<Rightarrow> world" where
  "incrementGenerationProgress now roundId w =
     (case rounds w roundId of
        None \<Rightarrow> w
      | Some r \<Rightarrow>
          if rd_status r \<noteq> Generating then w
          else
            (let newCount = (case generationCompletedCount r of None \<Rightarrow> 0 | Some n \<Rightarrow> n) + 1;
                 w1 = patchRound roundId (\<lambda>r. r\<lparr>generationCompletedCount := Some newCount\<rparr>) w
             in checkAllImagesGenerated now roundId w1))"

definition markGenerationComplete :: "int \<Rightarrow> id \<Rightarrow> world \<Rightarrow> error + world" where
  "markGenerationComplete now roundId w =
     (case rounds w roundId of
        None \<Rightarrow> Inl DocumentNotFound
      | Some _ \<Rightarrow>
          Inr (checkAllImagesGenerated now roundId
                 (patchRound roundId (\<lambda>r. r\<lparr>generationCompletedAt := Some now\<rparr>) w)))"

definition markGenerationFailed :: "int \<Rightarrow> id \<Rightarrow> string \<Rightarrow> world \<Rightarrow> error + world" where
  "markGenerationFailed now roundId err w =
     (case rounds w roundId of
        None \<Rightarrow> Inl DocumentNotFound
      | Some _ \<Rightarrow>
          Inr (patchRound roundId (\<lambda>r. r\<lparr>generationError := Some err,
                                         generationCompletedAt := Some now\<rparr>) w))"

section \<open>Round creation (convex/game/rounds.ts, convex/game/state.ts)\<close>

text \<open>
  \<open>initializeGame\<close> and \<open>startNextRound\<close> create a round in the same way: insert it in
  status prompt with its deadline, schedule the transition for the deadline, store the
  handle. \<open>roundId\<close> is the id \<open>db.insert\<close> returns, one that no round has yet. The
  choice of the question card and the update of the room do not touch the round.
\<close>

definition startRound :: "gameConfig \<Rightarrow> int \<Rightarrow> id \<Rightarrow> nat \<Rightarrow> id \<Rightarrow> world \<Rightarrow> world" where
  "startRound cfg now roomId roundNumber roundId w =
     (let w1 = w\<lparr>rounds := (rounds w)(roundId \<mapsto>
                   \<lparr>rd_roomId = roomId, rd_roundNumber = roundNumber, rd_status = Prompt,
                    phaseEndTime = Some (now + PROMPT_PHASE_DURATION cfg),
                    scheduledTransitionId = None, generationStartedAt = None,
                    generationExpectedCount = None, generationCompletedCount = None,
                    generationCompletedAt = None, generationError = None,
                    endedAt = None\<rparr>)\<rparr>;
          (h, w2) = runAt (now + PROMPT_PHASE_DURATION cfg) (TransitionPhase roundId) w1
      in patchRound roundId (\<lambda>r. r\<lparr>scheduledTransitionId := Some h\<rparr>) w2)"

section \<open>Reachable states\<close>

definition nonnegDurations :: "gameConfig \<Rightarrow> bool" where
  "nonnegDurations cfg \<longleftrightarrow>
     0 \<le> PROMPT_PHASE_DURATION cfg \<and> 0 \<le> GENERATION_PHASE_DURATION cfg \<and>
     0 \<le> VOTING_PHASE_DURATION cfg \<and> 0 \<le> RESULTS_PHASE_DURATION cfg"

text \<open>
  The states the engine can be in: it starts with no round; rounds are created by
  \<open>startRound\<close>; every mutation of the game modules that writes a round is a step, run
  at a clock reading \<open>now\<close> after the epoch. Everything else (prompt and vote submission,
  roster changes, image storage, score updates, the scheduler taking a job off its queue)
  leaves the rounds as they are and is the last rule. The development-only helpers of the
  testing modules, which insert and delete rounds directly, are not steps.
\<close>

inductive reachable :: "gameConfig \<Rightarrow> world \<Rightarrow> bool" for cfg :: gameConfig where
  r_init: "nonnegDurations cfg \<Longrightarrow> rounds w = Map.empty \<Longrightarrow> reachable cfg w"
| r_start: "reachable cfg w \<Longrightarrow> 0 < now \<Longrightarrow> rounds w roundId = None \<Longrightarrow>
     reachable cfg (startRound cfg now roomId roundNumber roundId w)"
| r_transition: "reachable cfg w \<Longrightarrow> 0 < now \<Longrightarrow>
     reachable cfg (transitionPhase cfg now roundId w)"
| r_submitted: "reachable cfg w \<Longrightarrow> reachable cfg (checkAllPlayersSubmitted now roundId w)"
| r_voted: "reachable cfg w \<Longrightarrow> reachable cfg (checkAllPlayersVoted now roundId w)"
| r_generated: "reachable cfg w \<Longrightarrow> reachable cfg (checkAllImagesGenerated now roundId w)"
| r_progress: "reachable cfg w \<Longrightarrow>
     reachable cfg (incrementGenerationProgress now roundId w)"
| r_complete: "reachable cfg w \<Longrightarrow> markGenerationComplete now roundId w = Inr w' \<Longrightarrow>
     reachable cfg w'"
| r_failed: "reachable cfg w \<Longrightarrow> markGenerationFailed now roundId err w = Inr w' \<Longrightarrow>
     reachable cfg w'"
| r_verify: "reachable cfg w \<Longrightarrow>
     verifyAndTriggerGeneration now roundId retryCount w = Inr w' \<Longrightarrow> reachable cfg w'"
| r_other: "reachable cfg w \<Longrightarrow> rounds w' = rounds w \<Longrightarrow> reachable cfg w'"

text \<open>A configuration and a state used as concrete inputs below: one room with three
  connected players, its first round just created at clock reading 1000.\<close>

definition exampleConfig :: gameConfig where
  "exampleConfig =
     \<lparr>PROMPT_PHASE_DURATION = 60000, GENERATION_PHASE_DURATION = 45000,
      VOTING_PHASE_DURATION = 45000, RESULTS_PHASE_DURATION = 15000,
      POINTS_PER_WIN = 100, POINTS_PER_VOTE = 10\<rparr>"

definition emptyWorld :: world where
  "emptyWorld =
     \<lparr>rounds = Map.empty,
      rooms = [9 \<mapsto> \<lparr>currentRound = Some 1, roundsPerGame = 3\<rparr>],
      players = [\<lparr>p_id = 1, p_roomId = 9, p_status = Connected, p_score = 0\<rparr>,
                 \<lparr>p_id = 2, p_roomId = 9, p_status = Connected, p_score = 0\<rparr>,
                 \<lparr>p_id = 3, p_roomId = 9, p_status = Connected, p_score = 0\<rparr>],
      prompts = [], images = [], votes = [], scheduler = [], nextJobId = 0\<rparr>"

definition exampleWorld :: world where
  "exampleWorld = startRound exampleConfig 1000 9 1 4 emptyWorld"

definition generatingWorld :: world where
  "generatingWorld = transitionPhase exampleConfig 30000 4 exampleWorld"

definition votingWorld :: world where
  "votingWorld =
     (transitionPhase exampleConfig 31000 4 generatingWorld)
       \<lparr>prompts := [\<lparr>pr_id = 5, pr_roundId = 4, pr_playerId = 1\<rparr>,
                    \<lparr>pr_id = 6, pr_roundId = 4, pr_playerId = 2\<rparr>,
                    \<lparr>pr_id = 7, pr_roundId = 4, pr_playerId = 3\<rparr>]\<rparr>"

text \<open>The same round with one image per prompt and a three-way tie: every player votes
  for the next player's image.\<close>

definition scoringWorld :: world where
  "scoringWorld =
     votingWorld
       \<lparr>images := [\<lparr>im_id = 15, im_promptId = 5\<rparr>,
                   \<lparr>im_id = 16, im_promptId = 6\<rparr>,
                   \<lparr>im_id = 17, im_promptId = 7\<rparr>],
        votes := [\<lparr>v_id = 21, v_roundId = 4, voterId = 1, imageId = 16\<rparr>,
                  \<lparr>v_id = 22, v_roundId = 4, voterId = 2, imageId = 17\<rparr>,
                  \<lparr>v_id = 23, v_roundId = 4, voterId = 3, imageId = 15\<rparr>]\<rparr>"

section \<open>Repeated transitions and invariants\<close>

text \<open>Invoking \<open>transitionPhase\<close> on one round at each of a list of clock readings, and the
  round's status before the first and after each invocation.\<close>

fun transitions :: "gameConfig \<Rightarrow> int list \<Rightarrow> id \<Rightarrow> world \<Rightarrow> world" where
  "transitions cfg [] rid w = w"
| "transitions cfg (t # ts) rid w = transitions cfg ts rid (transitionPhase cfg t rid w)"

fun statusTrace :: "gameConfig \<Rightarrow> int list \<Rightarrow> id \<Rightarrow> world \<Rightarrow> roundStatus option list" where
  "statusTrace cfg [] rid w = [map_option rd_status (rounds w rid)]"
| "statusTrace cfg (t # ts) rid w =
     map_option rd_status (rounds w rid) # statusTrace cfg ts rid (transitionPhase cfg t rid w)"

text \<open>One step along prompt, generating, voting, results, complete: stay, or move to the
  next status.\<close>

definition linearStep :: "roundStatus option \<Rightarrow> roundStatus option \<Rightarrow> bool" where
  "linearStep a b \<longleftrightarrow>
     (\<exists>s s'. a = Some s \<and> b = Some s' \<and>
        (s' = s \<or> (s, s') \<in> {(Prompt, Generating), (Generating, Voting),
                                (Voting, Results), (Results, Complete)}))"

text \<open>
  The round that \<open>transitionPhase\<close> leaves when it does not return early, as one record
  update: \<open>n\<close> is the number of prompts of the round, \<open>h\<close> the next free handle (the
  prompt and voting cases schedule another job before the timer, so the timer gets
  \<open>Suc h\<close>). Lemma \<open>transitionPhase_rounds\<close> proves that this is what the sequence of
  patches amounts to.
\<close>

definition advanced :: "gameConfig \<Rightarrow> int \<Rightarrow> nat \<Rightarrow> id \<Rightarrow> round \<Rightarrow> round" where
  "advanced cfg now n h r =
     (case rd_status r of
        Prompt \<Rightarrow> r\<lparr>rd_status := Generating,
                     phaseEndTime := Some (now + GENERATION_PHASE_DURATION cfg),
                     generationStartedAt := Some now,
                     generationExpectedCount := Some n,
                     generationCompletedCount := Some 0,
                     scheduledTransitionId := Some (Suc h)\<rparr>
      | Generating \<Rightarrow> r\<lparr>rd_status := Voting,
                     phaseEndTime := Some (now + VOTING_PHASE_DURATION cfg),
                     scheduledTransitionId := Some h\<rparr>
      | Voting \<Rightarrow> r\<lparr>rd_status := Results,
                     phaseEndTime := Some (now + RESULTS_PHASE_DURATION cfg),
                     scheduledTransitionId := Some (Suc h)\<rparr>
      | Results \<Rightarrow> r\<lparr>rd_status := Complete, endedAt := Some now,
                     scheduledTransitionId := None\<rparr>
      | Complete \<Rightarrow> r\<lparr>scheduledTransitionId := None\<rparr>)"

text \<open>The invariant of reachable states: a complete round holds no timer handle, and
  every round has a deadline after the epoch.\<close>

definition roundInv :: "round \<Rightarrow> bool" where
  "roundInv r \<longleftrightarrow>
     (rd_status r = Complete \<longrightarrow> scheduledTransitionId r = None) \<and>
     (\<exists>t. phaseEndTime r = Some t \<and> 0 < t)"

definition worldInv :: "world \<Rightarrow> bool" where
  "worldInv w \<longleftrightarrow> (\<forall>rid r. rounds w rid = Some r \<longrightarrow> roundInv r)"

section \<open>A round whose generation verification gives up\<close>

text \<open>
  The example round followed along the path on which nobody submits a prompt. The
  scheduler runs a job at its due time and takes it off its queue (\<open>cancel\<close> of its
  handle, then the function): the prompt timer at 61000, the four verifications at 62000,
  63000, 65000 and 68000, the transition that the last of them schedules at 70000.
  \<open>andThen\<close> stops at the first error.
\<close>

definition andThen :: "error + world \<Rightarrow> (world \<Rightarrow> error + world) \<Rightarrow> error + world" where
  "andThen m f = (case m of Inl e \<Rightarrow> Inl e | Inr w \<Rightarrow> f w)"

definition failOpenRun :: "error + world" where
  "failOpenRun =
     andThen (andThen (andThen (andThen
       (verifyAndTriggerGeneration 62000 4 (Some 0)
          (cancel 1 (transitionPhase exampleConfig 61000 4 (cancel 0 exampleWorld))))
       (\<lambda>w. verifyAndTriggerGeneration 63000 4 (Some 1) (cancel 3 w)))
       (\<lambda>w. verifyAndTriggerGeneration 65000 4 (Some 2) (cancel 4 w)))
       (\<lambda>w. verifyAndTriggerGeneration 68000 4 (Some 3) (cancel 5 w)))
       (\<lambda>w. Inr (transitionPhase exampleConfig 70000 4 (cancel 6 w)))"

definition failOpenWorld :: world where
  "failOpenWorld = (case failOpenRun of Inr w \<Rightarrow> w | Inl e \<Rightarrow> exampleWorld)"

section \<open>Properties of the completion evaluator\<close>

lemma calculateVotingEligibility_map:
  "calculateVotingEligibility ps prs = map (eligibilityOf prs) ps"
  by (induction ps) simp_all

lemma fold_max_Max: "fold max vs (a::nat) = Max (insert a (set vs))"
proof (induction vs arbitrary: a)
  case Nil
  show ?case by simp
next
  case (Cons v vs)
  have "Max (insert (max v a) (set vs)) = Max (insert a (insert v (set vs)))"
    by (cases "set vs = {}") (simp_all add: max.commute max.left_commute)
  with Cons show ?case by simp
qed

lemma mathMax_Max: "vs \<noteq> [] \<Longrightarrow> mathMax vs = Max (set vs)"
  by (cases vs) (simp_all add: fold_max_Max)

lemma mathMax_greatest:
  assumes "(k, c) \<in> set m"
  shows "c = mathMax (map snd m) \<longleftrightarrow> (\<forall>(k', c') \<in> set m. c' \<le> c)"
proof -
  from assms have ne: "map snd m \<noteq> []" by auto
  have mx: "mathMax (map snd m) = Max (snd ` set m)"
    using mathMax_Max[OF ne] by simp
  have cin: "c \<in> snd ` set m" using assms by force
  show ?thesis
  proof
    assume "c = mathMax (map snd m)"
    then have "c = Max (snd ` set m)" using mx by simp
    then show "\<forall>(k', c') \<in> set m. c' \<le> c" by (force intro!: Max_ge)
  next
    assume "\<forall>(k', c') \<in> set m. c' \<le> c"
    then have "\<forall>x \<in> snd ` set m. x \<le> c" by auto
    then have "Max (snd ` set m) = c" using cin by (intro Max_eqI) auto
    then show "c = mathMax (map snd m)" using mx by simp
  qed
qed

lemma findWinningImages_set:
  "set (findWinningImages m) =
     {k. \<exists>c. (k, c) \<in> set m \<and> 0 < c \<and> (\<forall>(k', c') \<in> set m. c' \<le> c)}"
  (is "?L = ?R")
proof (cases "m = []")
  case True
  then show ?thesis by (simp add: findWinningImages_def)
next
  case False
  show ?thesis
  proof (cases "mathMax (map snd m) = 0")
    case True
    have "?R = {}"
    proof -
      { fix k c assume kc: "(k, c) \<in> set m" and mx: "\<forall>(k', c') \<in> set m. c' \<le> c"
        then have "c = mathMax (map snd m)" using mathMax_greatest[OF kc] by simp
        then have "c = 0" using True by simp }
      then show ?thesis by blast
    qed
    then show ?thesis using True by (simp add: findWinningImages_def)
  next
    case nz: False
    have L: "?L = {k. \<exists>c. (k, c) \<in> set m \<and> c = mathMax (map snd m)}"
      using False nz by (force simp: findWinningImages_def Let_def)
    show ?thesis unfolding L using nz mathMax_greatest by fastforce
  qed
qed

lemma findWinningImages_all_zero:
  assumes z: "\<forall>(k, c) \<in> set m. c = 0"
  shows "findWinningImages m = []"
proof (cases m)
  case Nil
  then show ?thesis by (simp add: findWinningImages_def)
next
  case (Cons a list)
  obtain k c where a: "a = (k, c)" by (cases a)
  then have kc: "(k, c) \<in> set m" using Cons by simp
  then have "c = 0" using z by auto
  moreover have "c = mathMax (map snd m)" using mathMax_greatest[OF kc] z by auto
  ultimately show ?thesis by (simp add: findWinningImages_def)
qed

text \<open>The map that \<open>countVotesPerImage\<close> builds has distinct keys, the images voted for,
  each with the number of votes naming it.\<close>

lemma map_of_countVote:
  "map_of (countVote v m) k =
     (if k = imageId v then Some ((case map_of m k of None \<Rightarrow> 0 | Some c \<Rightarrow> c) + 1)
      else map_of m k)"
  by (simp add: countVote_def Let_def update_conv')

lemma map_of_fold_countVote:
  "map_of (fold countVote vs m) k =
     (if k \<in> imageId ` set vs
      then Some ((case map_of m k of None \<Rightarrow> 0 | Some c \<Rightarrow> c)
                  + length (filter (\<lambda>v. imageId v = k) vs))
      else map_of m k)"
proof (induction vs arbitrary: m)
  case Nil
  show ?case by simp
next
  case (Cons v vs)
  show ?case
    unfolding fold_Cons comp_def Cons.IH[of "countVote v m"] map_of_countVote
    by (auto split: option.splits simp: filter_empty_conv image_iff)
qed

lemma distinct_fold_countVote:
  "distinct (map fst m) \<Longrightarrow> distinct (map fst (fold countVote vs m))"
  by (induction vs arbitrary: m) (simp_all add: countVote_def Let_def distinct_update)

lemma countVotesPerImage_counts:
  "distinct (map fst (countVotesPerImage vs)) \<and>
   map_of (countVotesPerImage vs) k =
     (if k \<in> imageId ` set vs then Some (length (filter (\<lambda>v. imageId v = k) vs)) else None)"
  unfolding countVotesPerImage_def
  by (simp add: map_of_fold_countVote distinct_fold_countVote)

text \<open>
  Claim C4. \<open>findWinningImages\<close> returns exactly the targets whose count is the greatest
  count of the map, provided that count is positive: every tied target is among the winners
  and no target with a lower count is. On a map with distinct keys no winner is listed
  twice. The empty map and a map whose counts are all zero have no winner.
\<close>

theorem findWinningImages_exact:
  "set (findWinningImages m) =
     {k. \<exists>c. (k, c) \<in> set m \<and> 0 < c \<and> (\<forall>(k', c') \<in> set m. c' \<le> c)}
   \<and> (distinct (map fst m) \<longrightarrow> distinct (findWinningImages m))
   \<and> findWinningImages [] = []
   \<and> ((\<forall>(k, c) \<in> set m. c = 0) \<longrightarrow> findWinningImages m = [])"
proof (intro conjI impI)
  show "set (findWinningImages m) =
     {k. \<exists>c. (k, c) \<in> set m \<and> 0 < c \<and> (\<forall>(k', c') \<in> set m. c' \<le> c)}"
    by (rule findWinningImages_set)
  show "distinct (findWinningImages m)" if "distinct (map fst m)"
    using that by (simp add: findWinningImages_def Let_def distinct_map_filter)
  show "findWinningImages [] = []" by (simp add: findWinningImages_def)
  show "findWinningImages m = []" if "\<forall>(k, c) \<in> set m. c = 0"
    using that by (rule findWinningImages_all_zero)
qed

theorem findWinningImages_exact_witness:
  "1 \<in> set (findWinningImages [(1, 2), (2, 1), (3, 2)])
   \<and> 2 \<notin> set (findWinningImages [(1, 2), (2, 1), (3, 2)])
   \<and> 3 \<in> set (findWinningImages [(1, 2), (2, 1), (3, 2)])
   \<and> distinct (findWinningImages [(1, 2), (2, 1), (3, 2)])
   \<and> findWinningImages [(7, 0), (8, 0)] = []"
proof -
  let ?m = "[(1, 2), (2, 1), (3, 2)] :: (nat \<times> nat) list"
  let ?z = "[(7, 0), (8, 0)] :: (nat \<times> nat) list"
  let ?W = "{k. \<exists>c. (k, c) \<in> set ?m \<and> 0 < c \<and> (\<forall>(k', c') \<in> set ?m. c' \<le> c)}"
  have d: "distinct (map fst ?m)" by simp
  have z: "\<forall>(k, c) \<in> set ?z. c = 0" by simp
  have m: "1 \<in> ?W \<and> 2 \<notin> ?W \<and> 3 \<in> ?W" by auto
  note a = findWinningImages_exact [of ?m]
  note b = findWinningImages_exact [of ?z]
  from a have e: "set (findWinningImages ?m) = ?W" by (rule conjunct1)
  from a d have 2: "distinct (findWinningImages ?m)" by blast
  from b z have 3: "findWinningImages ?z = []" by blast
  from m 2 3 show ?thesis unfolding e by blast
qed

text \<open>
  Claim C7, as the code has it. For every player of the input list, in order: a player
  who is not connected is ineligible; a connected player who submitted a prompt while no
  other player did is ineligible, with the reason string of the source; a connected player
  for whom another player's prompt exists is eligible; a connected player who submitted
  nothing is eligible whether or not any prompt (hence any image) exists.
\<close>

theorem calculateVotingEligibility_cases:
  "length (calculateVotingEligibility ps prs) = length ps \<and>
   (\<forall>i < length ps.
      let pl = ps ! i; e = calculateVotingEligibility ps prs ! i;
          submitted = (\<exists>p \<in> set prs. pr_playerId p = p_id pl);
          others = (\<exists>p \<in> set prs. pr_playerId p \<noteq> p_id pl)
      in playerId e = p_id pl \<and>
         (p_status pl \<noteq> Connected \<longrightarrow> \<not> isEligible e) \<and>
         (p_status pl = Connected \<and> submitted \<and> \<not> others \<longrightarrow>
            \<not> isEligible e \<and> reason e = ''Only own image available'') \<and>
         (p_status pl = Connected \<and> others \<longrightarrow> isEligible e) \<and>
         (p_status pl = Connected \<and> \<not> submitted \<longrightarrow> isEligible e))"
  by (simp add: calculateVotingEligibility_map eligibilityOf_def Let_def list_ex_iff)

theorem calculateVotingEligibility_cases_witness:
  "\<not> isEligible (calculateVotingEligibility
       [\<lparr>p_id = 1, p_roomId = 9, p_status = Connected, p_score = 0\<rparr>,
        \<lparr>p_id = 2, p_roomId = 9, p_status = Kicked, p_score = 0\<rparr>]
       [\<lparr>pr_id = 5, pr_roundId = 3, pr_playerId = 1\<rparr>] ! 0)
   \<and> \<not> isEligible (calculateVotingEligibility
       [\<lparr>p_id = 1, p_roomId = 9, p_status = Connected, p_score = 0\<rparr>,
        \<lparr>p_id = 2, p_roomId = 9, p_status = Kicked, p_score = 0\<rparr>]
       [\<lparr>pr_id = 5, pr_roundId = 3, pr_playerId = 1\<rparr>] ! 1)"
proof -
  let ?ps = "[\<lparr>p_id = 1, p_roomId = 9, p_status = Connected, p_score = 0\<rparr>,
              \<lparr>p_id = 2, p_roomId = 9, p_status = Kicked, p_score = 0\<rparr>]"
  let ?prs = "[\<lparr>pr_id = 5, pr_roundId = 3, pr_playerId = 1\<rparr>]"
  note t = calculateVotingEligibility_cases [of ?ps ?prs, THEN conjunct2]
  have l0: "0 < length ?ps" and l1: "1 < length ?ps" by simp_all
  have own: "p_status (?ps ! 0) = Connected
      \<and> (\<exists>p \<in> set ?prs. pr_playerId p = p_id (?ps ! 0))
      \<and> \<not> (\<exists>p \<in> set ?prs. pr_playerId p \<noteq> p_id (?ps ! 0))" by simp
  have kicked: "p_status (?ps ! 1) \<noteq> Connected" by simp
  from t l0 own have "\<not> isEligible (calculateVotingEligibility ?ps ?prs ! 0)"
    unfolding Let_def by blast
  moreover from t l1 kicked have "\<not> isEligible (calculateVotingEligibility ?ps ?prs ! 1)"
    unfolding Let_def by blast
  ultimately show ?thesis by blast
qed

text \<open>
  Claim C7 as stated fails in its last clause: with no prompt at all, so with no image, a
  connected player who submitted nothing is still marked eligible.
\<close>

theorem calculateVotingEligibility_no_prompts_counterexample:
  "calculateVotingEligibility
     [\<lparr>p_id = 1, p_roomId = 9, p_status = Connected, p_score = 0\<rparr>] []
   = [\<lparr>playerId = 1, isEligible = True,
       reason = ''Did not submit prompt, can vote on all images''\<rparr>]"
  by (simp add: eligibilityOf_def)

text \<open>
  Claim C8. \<open>haveAllEligiblePlayersVoted\<close> holds exactly when some entry is eligible and
  every eligible entry's player has a vote; the prompt-phase check
  \<open>shouldTriggerEarlyPromptTransition\<close> holds exactly when some player is connected and
  every connected player has a prompt. With nobody eligible (nobody connected) both are
  false.
\<close>

theorem allRequiredHaveActed_iff:
  "(haveAllEligiblePlayersVoted eligibility vs \<longleftrightarrow>
      (\<exists>e \<in> set eligibility. isEligible e) \<and>
      (\<forall>e \<in> set eligibility. isEligible e \<longrightarrow> playerId e \<in> voterId ` set vs))
   \<and> (shouldTriggerEarlyPromptTransition ps prs \<longleftrightarrow>
      (\<exists>p \<in> set ps. p_status p = Connected) \<and>
      (\<forall>p \<in> set ps. p_status p = Connected \<longrightarrow> p_id p \<in> pr_playerId ` set prs))
   \<and> ((\<forall>e \<in> set eligibility. \<not> isEligible e) \<longrightarrow>
        \<not> haveAllEligiblePlayersVoted eligibility vs)
   \<and> ((\<forall>p \<in> set ps. p_status p \<noteq> Connected) \<longrightarrow>
        \<not> shouldTriggerEarlyPromptTransition ps prs)"
  by (auto simp: haveAllEligiblePlayersVoted_def shouldTriggerEarlyPromptTransition_def
        Let_def list_all_iff filter_empty_conv)

theorem allRequiredHaveActed_iff_witness:
  "haveAllEligiblePlayersVoted
     [\<lparr>playerId = 1, isEligible = True, reason = []\<rparr>,
      \<lparr>playerId = 2, isEligible = False, reason = []\<rparr>]
     [\<lparr>v_id = 4, v_roundId = 3, voterId = 1, imageId = 6\<rparr>]
   \<and> \<not> haveAllEligiblePlayersVoted
     [\<lparr>playerId = 2, isEligible = False, reason = []\<rparr>]
     [\<lparr>v_id = 4, v_roundId = 3, voterId = 1, imageId = 6\<rparr>]
   \<and> \<not> shouldTriggerEarlyPromptTransition
     [\<lparr>p_id = 2, p_roomId = 9, p_status = Disconnected, p_score = 0\<rparr>] []"
proof -
  let ?el = "[\<lparr>playerId = 1, isEligible = True, reason = []\<rparr>,
              \<lparr>playerId = 2, isEligible = False, reason = []\<rparr>]"
  let ?el2 = "[\<lparr>playerId = 2, isEligible = False, reason = []\<rparr>]"
  let ?vs = "[\<lparr>v_id = 4, v_roundId = 3, voterId = 1, imageId = 6\<rparr>]"
  let ?ps = "[\<lparr>p_id = 2, p_roomId = 9, p_status = Disconnected, p_score = 0\<rparr>]"
  have a: "(\<exists>e \<in> set ?el. isEligible e) \<and>
           (\<forall>e \<in> set ?el. isEligible e \<longrightarrow> playerId e \<in> voterId ` set ?vs)" by simp
  have b: "\<forall>e \<in> set ?el2. \<not> isEligible e" by simp
  have c: "\<forall>p \<in> set ?ps. p_status p \<noteq> Connected" by simp
  from a allRequiredHaveActed_iff [of ?el ?vs "[]" "[]"]
  have 1: "haveAllEligiblePlayersVoted ?el ?vs" by blast
  from b c allRequiredHaveActed_iff [of ?el2 ?vs ?ps "[]"]
  have 2: "\<not> haveAllEligiblePlayersVoted ?el2 ?vs"
    and 3: "\<not> shouldTriggerEarlyPromptTransition ?ps []" by blast+
  from 1 2 3 show ?thesis by blast
qed

section \<open>Properties of the phase state machine\<close>

lemma rounds_runAt [simp]: "rounds (snd (runAt t j w)) = rounds w"
  by (simp add: runAt_def)

lemma rounds_runAfter [simp]: "rounds (snd (runAfter d j now w)) = rounds w"
  by (simp add: runAfter_def)

lemma rounds_cancel [simp]: "rounds (cancel h w) = rounds w"
  by (simp add: cancel_def)

lemma rounds_patchRound:
  "rounds (patchRound rid f w) =
     (case rounds w rid of None \<Rightarrow> rounds w | Some r \<Rightarrow> (rounds w)(rid \<mapsto> f r))"
  by (simp add: patchRound_def split: option.splits)

lemma transitionPhase_rounds:
  assumes "rounds w rid = Some r"
  shows "rounds (transitionPhase cfg now rid w) =
           (if duplicateTransition cfg now r then rounds w
            else (rounds w)(rid \<mapsto>
                   advanced cfg now (length (getPromptsForRound rid w)) (nextJobId w) r))"
  using assms
  by (cases "rd_status r"; cases "scheduledTransitionId r")
     (auto simp: transitionPhase_def advanced_def promptToGenerating_def generatingToVoting_def
      votingToResults_def resultsToComplete_def patchRound_def runAt_def runAfter_def Let_def
      getPromptsForRound_def fun_upd_def
      split: prod.splits)

lemma transitionPhase_duplicate:
  "rounds w rid = Some r \<Longrightarrow> duplicateTransition cfg now r \<Longrightarrow>
     transitionPhase cfg now rid w = w"
  by (simp add: transitionPhase_def)

lemma transitionPhase_status:
  assumes "rounds w rid = Some r"
  shows "map_option rd_status (rounds (transitionPhase cfg now rid w) rid) =
     Some (if duplicateTransition cfg now r then rd_status r
           else (case rd_status r of Prompt \<Rightarrow> Generating | Generating \<Rightarrow> Voting
                 | Voting \<Rightarrow> Results | Results \<Rightarrow> Complete | Complete \<Rightarrow> Complete))"
  using assms transitionPhase_rounds[OF assms, of cfg now]
  by (cases "rd_status r") (simp_all add: advanced_def)

lemma transitionPhase_complete:
  assumes "rounds w rid = Some r" "rd_status r = Complete" "scheduledTransitionId r = None"
  shows "transitionPhase cfg now rid w = w"
  using assms by (simp add: transitionPhase_def duplicateTransition_def split: option.splits)

lemma transitionPhase_linearStep:
  assumes "rounds w rid = Some r"
  shows "linearStep (map_option rd_status (rounds w rid))
                    (map_option rd_status (rounds (transitionPhase cfg now rid w) rid))"
  unfolding transitionPhase_status[OF assms] using assms
  by (cases "rd_status r") (simp_all add: linearStep_def)

lemma transitionPhase_keeps:
  assumes "rounds w rid = Some r"
  shows "\<exists>r'. rounds (transitionPhase cfg now rid w) rid = Some r'"
  using transitionPhase_rounds[OF assms, of cfg now] assms by simp

lemma statusTrace_successively:
  assumes "rounds w rid = Some r"
  shows "successively linearStep (statusTrace cfg ts rid w)"
  using assms
proof (induction ts arbitrary: w r)
  case Nil
  then show ?case by simp
next
  case (Cons t ts)
  obtain r' where r': "rounds (transitionPhase cfg t rid w) rid = Some r'"
    using transitionPhase_keeps[OF Cons.prems] by blast
  have step: "linearStep (map_option rd_status (rounds w rid))
                (map_option rd_status (rounds (transitionPhase cfg t rid w) rid))"
    by (rule transitionPhase_linearStep[OF Cons.prems])
  have rest: "successively linearStep (statusTrace cfg ts rid (transitionPhase cfg t rid w))"
    by (rule Cons.IH[OF r'])
  show ?case using step rest by (cases ts) simp_all
qed

lemma transitions_complete:
  assumes "rounds w rid = Some r" "rd_status r = Complete" "scheduledTransitionId r = None"
  shows "transitions cfg ts rid w = w"
  using assms by (induction ts) (simp_all add: transitionPhase_complete)

lemma duplicateTransition_Complete:
  "rd_status r = Complete \<Longrightarrow> \<not> duplicateTransition cfg now r"
  by (simp add: duplicateTransition_def split: option.splits)

lemma duplicateTransition_after_advance:
  assumes "nonnegDurations cfg" and "0 < now1" and "now1 \<le> now2"
    and "now2 < now1 + MINIMUM_PHASE_DURATION_MS"
    and "rd_status r = Generating \<or> rd_status r = Voting"
  shows "duplicateTransition cfg now2 (advanced cfg now1 n h r)"
proof -
  from assms(5) show ?thesis
  proof
    assume "rd_status r = Generating"
    moreover have "now1 + VOTING_PHASE_DURATION cfg \<noteq> 0"
      using assms(1,2) by (simp add: nonnegDurations_def)
    ultimately show ?thesis
      using assms(3,4)
      by (simp add: advanced_def duplicateTransition_def getPhaseDuration_def)
  next
    assume "rd_status r = Voting"
    moreover have "now1 + RESULTS_PHASE_DURATION cfg \<noteq> 0"
      using assms(1,2) by (simp add: nonnegDurations_def)
    ultimately show ?thesis
      using assms(3,4)
      by (simp add: advanced_def duplicateTransition_def getPhaseDuration_def)
  qed
qed

subsection \<open>The invariant holds in every reachable state\<close>

lemma worldInv_patchRound:
  assumes "worldInv w" and "\<And>r. rounds w rid = Some r \<Longrightarrow> roundInv r \<Longrightarrow> roundInv (f r)"
  shows "worldInv (patchRound rid f w)"
  using assms by (auto simp: worldInv_def rounds_patchRound split: option.splits)

lemma worldInv_cong: "rounds w' = rounds w \<Longrightarrow> worldInv w' = worldInv w"
  by (simp add: worldInv_def)

lemma worldInv_runAfter [simp]: "worldInv (snd (runAfter d j now w)) = worldInv w"
  by (simp add: worldInv_def)

lemma worldInv_cancel [simp]: "worldInv (cancel h w) = worldInv w"
  by (simp add: worldInv_def)

lemma roundInv_advanced:
  "nonnegDurations cfg \<Longrightarrow> 0 < now \<Longrightarrow> roundInv r \<Longrightarrow> roundInv (advanced cfg now n h r)"
  by (cases "rd_status r") (auto simp: roundInv_def advanced_def nonnegDurations_def)

lemma worldInv_transitionPhase:
  assumes "worldInv w" "nonnegDurations cfg" "0 < now"
  shows "worldInv (transitionPhase cfg now rid w)"
proof (cases "rounds w rid")
  case None
  then show ?thesis using assms by (simp add: transitionPhase_def)
next
  case (Some r)
  then have "roundInv r" using assms(1) by (simp add: worldInv_def)
  then show ?thesis
    using assms transitionPhase_rounds[OF Some, of cfg now] roundInv_advanced[OF assms(2,3)]
    by (auto simp: worldInv_def)
qed

lemma worldInv_startRound:
  assumes "worldInv w" "nonnegDurations cfg" "0 < now"
  shows "worldInv (startRound cfg now roomId n rid w)"
  using assms
  by (auto simp: startRound_def worldInv_def roundInv_def nonnegDurations_def runAt_def
      patchRound_def Let_def split: if_splits)

lemma worldInv_patch_gen:
  assumes "worldInv w"
    and "\<And>r. rd_status (f r) = rd_status r \<and> phaseEndTime (f r) = phaseEndTime r \<and>
           (scheduledTransitionId (f r) = None \<or>
            scheduledTransitionId (f r) = scheduledTransitionId r)"
  shows "worldInv (patchRound rid f w)"
proof (rule worldInv_patchRound[OF assms(1)])
  fix r assume "roundInv r"
  then show "roundInv (f r)" using assms(2)[of r] by (auto simp: roundInv_def)
qed

lemma worldInv_checkAllPlayersSubmitted:
  "worldInv w \<Longrightarrow> worldInv (checkAllPlayersSubmitted now rid w)"
  unfolding checkAllPlayersSubmitted_def Let_def
  by (simp split: option.splits add: worldInv_patch_gen)

lemma worldInv_checkAllPlayersVoted:
  "worldInv w \<Longrightarrow> worldInv (checkAllPlayersVoted now rid w)"
  unfolding checkAllPlayersVoted_def Let_def
  by (simp split: option.splits add: worldInv_patch_gen)

lemma worldInv_checkAllImagesGenerated:
  "worldInv w \<Longrightarrow> worldInv (checkAllImagesGenerated now rid w)"
  unfolding checkAllImagesGenerated_def Let_def
  by (simp split: option.splits add: worldInv_patch_gen)

lemma worldInv_incrementGenerationProgress:
  "worldInv w \<Longrightarrow> worldInv (incrementGenerationProgress now rid w)"
  unfolding incrementGenerationProgress_def Let_def
  by (simp split: option.splits add: worldInv_patch_gen worldInv_checkAllImagesGenerated)

lemma worldInv_markGenerationComplete:
  "worldInv w \<Longrightarrow> markGenerationComplete now rid w = Inr w' \<Longrightarrow> worldInv w'"
  unfolding markGenerationComplete_def
  by (auto split: option.splits simp: worldInv_patch_gen worldInv_checkAllImagesGenerated)

lemma worldInv_markGenerationFailed:
  "worldInv w \<Longrightarrow> markGenerationFailed now rid err w = Inr w' \<Longrightarrow> worldInv w'"
  unfolding markGenerationFailed_def
  by (auto split: option.splits simp: worldInv_patch_gen)

lemma worldInv_verify:
  "worldInv w \<Longrightarrow> verifyAndTriggerGeneration now rid rc w = Inr w' \<Longrightarrow> worldInv w'"
  unfolding verifyAndTriggerGeneration_def Let_def
  by (auto split: option.splits if_splits simp: worldInv_patch_gen)

lemma reachable_nonneg: "reachable cfg w \<Longrightarrow> nonnegDurations cfg"
  by (induction rule: reachable.induct) assumption+

lemma reachable_worldInv: "reachable cfg w \<Longrightarrow> worldInv w"
proof (induction rule: reachable.induct)
  case (r_init w)
  then show ?case by (simp add: worldInv_def)
next
  case (r_start w now roundId roomId roundNumber)
  show ?case
    by (rule worldInv_startRound[OF r_start.IH reachable_nonneg[OF r_start.hyps(1)]
          r_start.hyps(2)])
next
  case (r_transition w now roundId)
  show ?case
    by (rule worldInv_transitionPhase[OF r_transition.IH
          reachable_nonneg[OF r_transition.hyps(1)] r_transition.hyps(2)])
next
  case (r_submitted w now roundId)
  show ?case using r_submitted.IH by (rule worldInv_checkAllPlayersSubmitted)
next
  case (r_voted w now roundId)
  show ?case using r_voted.IH by (rule worldInv_checkAllPlayersVoted)
next
  case (r_generated w now roundId)
  show ?case using r_generated.IH by (rule worldInv_checkAllImagesGenerated)
next
  case (r_progress w now roundId)
  show ?case using r_progress.IH by (rule worldInv_incrementGenerationProgress)
next
  case (r_complete w now roundId w')
  show ?case by (rule worldInv_markGenerationComplete[OF r_complete.IH r_complete.hyps(2)])
next
  case (r_failed w now roundId err w')
  show ?case by (rule worldInv_markGenerationFailed[OF r_failed.IH r_failed.hyps(2)])
next
  case (r_verify w now roundId retryCount w')
  show ?case by (rule worldInv_verify[OF r_verify.IH r_verify.hyps(2)])
next
  case (r_other w w')
  show ?case using worldInv_cong[OF r_other.hyps(2)] r_other.IH by simp
qed

lemma reachable_transitions:
  "reachable cfg w \<Longrightarrow> \<forall>t \<in> set ts. 0 < t \<Longrightarrow> reachable cfg (transitions cfg ts rid w)"
  by (induction ts arbitrary: w) (simp_all add: r_transition)

subsection \<open>Concrete states\<close>

lemmas example_defs = exampleWorld_def emptyWorld_def exampleConfig_def startRound_def
  generatingWorld_def votingWorld_def
  transitionPhase_def duplicateTransition_def getPhaseDuration_def MINIMUM_PHASE_DURATION_MS_def
  promptToGenerating_def generatingToVoting_def votingToResults_def resultsToComplete_def
  moreRounds_def patchRound_def runAt_def runAfter_def cancel_def getPromptsForRound_def Let_def

lemma nonnegDurations_exampleConfig: "nonnegDurations exampleConfig"
  by (simp add: nonnegDurations_def exampleConfig_def)

lemma reachable_exampleWorld: "reachable exampleConfig exampleWorld"
  unfolding exampleWorld_def
  by (rule r_start[OF r_init])
     (simp_all add: nonnegDurations_exampleConfig emptyWorld_def)

lemma exampleWorld_round:
  "rounds exampleWorld 4 = Some
     \<lparr>rd_roomId = 9, rd_roundNumber = 1, rd_status = Prompt,
      phaseEndTime = Some 61000, scheduledTransitionId = Some 0, generationStartedAt = None,
      generationExpectedCount = None, generationCompletedCount = None,
      generationCompletedAt = None, generationError = None, endedAt = None\<rparr>"
  by (simp add: example_defs)

lemma generatingWorld_round:
  "rounds generatingWorld 4 = Some
     \<lparr>rd_roomId = 9, rd_roundNumber = 1, rd_status = Generating,
      phaseEndTime = Some 75000, scheduledTransitionId = Some 2,
      generationStartedAt = Some 30000, generationExpectedCount = Some 0,
      generationCompletedCount = Some 0, generationCompletedAt = None,
      generationError = None, endedAt = None\<rparr>"
  by (simp add: example_defs)

lemma reachable_generatingWorld: "reachable exampleConfig generatingWorld"
  unfolding generatingWorld_def by (rule r_transition[OF reachable_exampleWorld]) simp

lemma votingWorld_round:
  "rounds votingWorld 4 = Some
     \<lparr>rd_roomId = 9, rd_roundNumber = 1, rd_status = Voting,
      phaseEndTime = Some 76000, scheduledTransitionId = Some 3,
      generationStartedAt = Some 30000, generationExpectedCount = Some 0,
      generationCompletedCount = Some 0, generationCompletedAt = None,
      generationError = None, endedAt = None\<rparr>"
  by (simp add: example_defs)
text \<open>
  Claim C3. Take a round of a reachable state and invoke \<open>transitionPhase\<close> on it any
  number of times, at any clock readings. The statuses it goes through, one after the
  other, each equal the one before or are its successor in prompt, generating, voting,
  results, complete: no status is skipped and none comes back. A single invocation leaves
  the status as it is when it returns early and moves it to the successor otherwise. On a
  complete round no invocation changes anything in the state.
\<close>

theorem transitionPhase_linear:
  assumes "reachable cfg w" and "rounds w rid = Some r"
  shows "successively linearStep (statusTrace cfg ts rid w)
     \<and> map_option rd_status (rounds (transitionPhase cfg now rid w) rid) =
         Some (if duplicateTransition cfg now r then rd_status r
               else (case rd_status r of Prompt \<Rightarrow> Generating | Generating \<Rightarrow> Voting
                     | Voting \<Rightarrow> Results | Results \<Rightarrow> Complete | Complete \<Rightarrow> Complete))
     \<and> (rd_status r = Complete \<longrightarrow> transitions cfg ts rid w = w)"
proof -
  have "roundInv r" using reachable_worldInv[OF assms(1)] assms(2) by (simp add: worldInv_def)
  then have "rd_status r = Complete \<longrightarrow> scheduledTransitionId r = None"
    by (simp add: roundInv_def)
  then show ?thesis
    using statusTrace_successively[OF assms(2)] transitionPhase_status[OF assms(2)]
      transitions_complete[OF assms(2)] by blast
qed

theorem transitionPhase_linear_witness:
  "statusTrace exampleConfig [1500, 30000, 30001, 80000, 100000, 200000] 4 exampleWorld =
     [Some Prompt, Some Prompt, Some Generating, Some Voting, Some Results, Some Complete,
      Some Complete]
   \<and> successively linearStep
       (statusTrace exampleConfig [1500, 30000, 30001, 80000, 100000, 200000] 4 exampleWorld)
   \<and> transitions exampleConfig [200000, 300000] 4
        (transitions exampleConfig [30000, 30001, 80000, 100000] 4 exampleWorld)
      = transitions exampleConfig [30000, 30001, 80000, 100000] 4 exampleWorld"
proof -
  let ?c = "transitions exampleConfig [30000, 30001, 80000, 100000] 4 exampleWorld"
  have tr: "statusTrace exampleConfig [1500, 30000, 30001, 80000, 100000, 200000] 4
      exampleWorld =
     [Some Prompt, Some Prompt, Some Generating, Some Voting, Some Results, Some Complete,
      Some Complete]"
    by (simp add: example_defs)
  have rc: "reachable exampleConfig ?c"
    by (rule reachable_transitions[OF reachable_exampleWorld]) simp
  obtain r where r: "rounds ?c 4 = Some r" and st: "rd_status r = Complete"
    by (simp add: example_defs)
  from transitionPhase_linear[OF reachable_exampleWorld exampleWorld_round]
  have 1: "successively linearStep
       (statusTrace exampleConfig [1500, 30000, 30001, 80000, 100000, 200000] 4 exampleWorld)"
    by (rule conjunct1)
  from transitionPhase_linear[OF rc r, of "[200000, 300000]"] st
  have 2: "transitions exampleConfig [200000, 300000] 4 ?c = ?c" by blast
  from tr 1 2 show ?thesis by blast
qed

text \<open>
  Claim C2, as the code has it. The early return covers the statuses prompt, voting and
  results: for a round of a reachable state in one of them, an invocation at a clock
  reading less than the minimum dwell time after the start of the phase (the deadline minus
  the phase duration) leaves the whole state unchanged. A round in generating is exempt:
  whatever the clock reading, the invocation moves it to voting, with the voting deadline.
\<close>

theorem transitionPhase_dwell_noop:
  assumes "reachable cfg w" and "rounds w rid = Some r"
  shows "(rd_status r \<in> {Prompt, Voting, Results} \<and> phaseEndTime r = Some pet \<and>
          now - (pet - getPhaseDuration cfg (rd_status r)) < MINIMUM_PHASE_DURATION_MS
            \<longrightarrow> transitionPhase cfg now rid w = w)
     \<and> (rd_status r = Generating \<longrightarrow>
           map_option rd_status (rounds (transitionPhase cfg now rid w) rid) = Some Voting
         \<and> map_option phaseEndTime (rounds (transitionPhase cfg now rid w) rid)
             = Some (Some (now + VOTING_PHASE_DURATION cfg)))"
proof (intro conjI impI)
  assume h: "rd_status r \<in> {Prompt, Voting, Results} \<and> phaseEndTime r = Some pet \<and>
          now - (pet - getPhaseDuration cfg (rd_status r)) < MINIMUM_PHASE_DURATION_MS"
  have "roundInv r" using reachable_worldInv[OF assms(1)] assms(2) by (simp add: worldInv_def)
  then have "pet \<noteq> 0" using h by (auto simp: roundInv_def)
  then have "duplicateTransition cfg now r"
    using h by (auto simp: duplicateTransition_def Let_def)
  then show "transitionPhase cfg now rid w = w" by (rule transitionPhase_duplicate[OF assms(2)])
next
  assume g: "rd_status r = Generating"
  then have nd: "\<not> duplicateTransition cfg now r"
    by (simp add: duplicateTransition_def split: option.splits)
  have rs: "rounds (transitionPhase cfg now rid w) rid =
      Some (advanced cfg now (length (getPromptsForRound rid w)) (nextJobId w) r)"
    using transitionPhase_rounds[OF assms(2), of cfg now] nd by simp
  show "map_option rd_status (rounds (transitionPhase cfg now rid w) rid) = Some Voting"
    unfolding rs using g by (simp add: advanced_def)
  show "map_option phaseEndTime (rounds (transitionPhase cfg now rid w) rid)
             = Some (Some (now + VOTING_PHASE_DURATION cfg))"
    unfolding rs using g by (simp add: advanced_def)
qed

theorem transitionPhase_dwell_noop_witness:
  "transitionPhase exampleConfig 1500 4 exampleWorld = exampleWorld
   \<and> map_option rd_status (rounds (transitionPhase exampleConfig 30100 4 generatingWorld) 4)
       = Some Voting
   \<and> map_option phaseEndTime (rounds (transitionPhase exampleConfig 30100 4 generatingWorld) 4)
       = Some (Some (30100 + VOTING_PHASE_DURATION exampleConfig))"
proof -
  let ?r = "\<lparr>rd_roomId = 9, rd_roundNumber = 1, rd_status = Prompt,
      phaseEndTime = Some 61000, scheduledTransitionId = Some 0, generationStartedAt = None,
      generationExpectedCount = None, generationCompletedCount = None,
      generationCompletedAt = None, generationError = None, endedAt = None\<rparr>"
  let ?g = "\<lparr>rd_roomId = 9, rd_roundNumber = 1, rd_status = Generating,
      phaseEndTime = Some 75000, scheduledTransitionId = Some 2,
      generationStartedAt = Some 30000, generationExpectedCount = Some 0,
      generationCompletedCount = Some 0, generationCompletedAt = None,
      generationError = None, endedAt = None\<rparr>"
  have d: "rd_status ?r \<in> {Prompt, Voting, Results} \<and> phaseEndTime ?r = Some 61000 \<and>
           1500 - (61000 - getPhaseDuration exampleConfig (rd_status ?r))
             < MINIMUM_PHASE_DURATION_MS"
    by (simp add: getPhaseDuration_def exampleConfig_def MINIMUM_PHASE_DURATION_MS_def)
  have s: "rd_status ?g = Generating" by simp
  note a = transitionPhase_dwell_noop[OF reachable_exampleWorld exampleWorld_round,
      of 61000 1500]
  note b = transitionPhase_dwell_noop[OF reachable_generatingWorld generatingWorld_round,
      of 75000 30100]
  from a d have 1: "transitionPhase exampleConfig 1500 4 exampleWorld = exampleWorld"
    by blast
  from b s have 2:
    "map_option rd_status (rounds (transitionPhase exampleConfig 30100 4 generatingWorld) 4)
       = Some Voting
     \<and> map_option phaseEndTime
         (rounds (transitionPhase exampleConfig 30100 4 generatingWorld) 4)
       = Some (Some (30100 + VOTING_PHASE_DURATION exampleConfig))"
    by blast
  from 1 2 show ?thesis by blast
qed

text \<open>
  Claim C2 as stated fails for a round in generating: half a second into the phase the
  invocation is not absorbed, it moves the round to voting.
\<close>

theorem transitionPhase_dwell_generating_counterexample:
  "map_option rd_status (rounds generatingWorld 4) = Some Generating
   \<and> map_option phaseEndTime (rounds generatingWorld 4) = Some (Some 75000)
   \<and> 30500 - (75000 - getPhaseDuration exampleConfig Generating) < MINIMUM_PHASE_DURATION_MS
   \<and> map_option rd_status (rounds (transitionPhase exampleConfig 30500 4 generatingWorld) 4)
       = Some Voting"
  by (simp add: example_defs)

text \<open>
  Claim C1, as the code has it. When an invocation of \<open>transitionPhase\<close> has moved a
  round into voting, results or complete, or has found it complete, a second invocation
  less than the minimum dwell time later is absorbed: the state stays exactly as the first
  invocation left it. (A round moved from prompt into generating is outside this
  statement: the early return does not apply to generating.)
\<close>

theorem transitionPhase_twice:
  assumes "nonnegDurations cfg" and "0 < now1" and "now1 \<le> now2"
    and "now2 < now1 + MINIMUM_PHASE_DURATION_MS"
    and "rounds w rid = Some r"
    and "rounds (transitionPhase cfg now1 rid w) rid = Some r1"
    and "rd_status r1 \<noteq> Generating"
    and "rd_status r1 \<noteq> rd_status r \<or> rd_status r = Complete"
  shows "transitionPhase cfg now2 rid (transitionPhase cfg now1 rid w)
           = transitionPhase cfg now1 rid w"
proof -
  have nd: "\<not> duplicateTransition cfg now1 r"
  proof
    assume d: "duplicateTransition cfg now1 r"
    then have "r1 = r" using transitionPhase_duplicate[OF assms(5) d] assms(5,6) by simp
    then have "rd_status r = Complete" using assms(8) by simp
    then show False using d duplicateTransition_Complete by blast
  qed
  have r1: "r1 = advanced cfg now1 (length (getPromptsForRound rid w)) (nextJobId w) r"
    using transitionPhase_rounds[OF assms(5), of cfg now1] assms(6) nd by simp
  show ?thesis
  proof (cases "rd_status r")
    case Prompt
    then have "rd_status r1 = Generating" using r1 by (simp add: advanced_def)
    then show ?thesis using assms(7) by simp
  next
    case Generating
    then have "duplicateTransition cfg now2 r1"
      unfolding r1 using duplicateTransition_after_advance[OF assms(1-4)] by blast
    then show ?thesis by (rule transitionPhase_duplicate[OF assms(6)])
  next
    case Voting
    then have "duplicateTransition cfg now2 r1"
      unfolding r1 using duplicateTransition_after_advance[OF assms(1-4)] by blast
    then show ?thesis by (rule transitionPhase_duplicate[OF assms(6)])
  next
    case Results
    then have "rd_status r1 = Complete" "scheduledTransitionId r1 = None"
      using r1 by (simp_all add: advanced_def)
    then show ?thesis by (rule transitionPhase_complete[OF assms(6)])
  next
    case Complete
    then have "rd_status r1 = Complete" "scheduledTransitionId r1 = None"
      using r1 by (simp_all add: advanced_def)
    then show ?thesis by (rule transitionPhase_complete[OF assms(6)])
  qed
qed

theorem transitionPhase_twice_witness:
  "transitionPhase exampleConfig 31500 4 (transitionPhase exampleConfig 31000 4 generatingWorld)
     = transitionPhase exampleConfig 31000 4 generatingWorld"
proof -
  let ?r = "\<lparr>rd_roomId = 9, rd_roundNumber = 1, rd_status = Generating,
      phaseEndTime = Some 75000, scheduledTransitionId = Some 2,
      generationStartedAt = Some 30000, generationExpectedCount = Some 0,
      generationCompletedCount = Some 0, generationCompletedAt = None,
      generationError = None, endedAt = None\<rparr>"
  obtain r1 where r1: "rounds (transitionPhase exampleConfig 31000 4 generatingWorld) 4 = Some r1"
    and st: "rd_status r1 = Voting"
    by (simp add: example_defs)
  have a: "(0::int) < 31000" "(31000::int) \<le> 31500"
          "(31500::int) < 31000 + MINIMUM_PHASE_DURATION_MS"
    by (simp_all add: MINIMUM_PHASE_DURATION_MS_def)
  have b: "rd_status r1 \<noteq> Generating" using st by simp
  have c: "rd_status r1 \<noteq> rd_status ?r \<or> rd_status ?r = Complete" using st by simp
  show ?thesis
    by (rule transitionPhase_twice[OF nonnegDurations_exampleConfig a generatingWorld_round
          r1 b c])
qed

text \<open>
  Claim C1 as stated fails for a round in prompt: the first invocation moves it to
  generating, the second, one millisecond later, is not absorbed and moves it on to voting.
\<close>

theorem transitionPhase_twice_prompt_counterexample:
  "map_option rd_status (rounds exampleWorld 4) = Some Prompt
   \<and> map_option rd_status (rounds (transitionPhase exampleConfig 30000 4 exampleWorld) 4)
       = Some Generating
   \<and> map_option rd_status (rounds (transitionPhase exampleConfig 30001 4
        (transitionPhase exampleConfig 30000 4 exampleWorld)) 4) = Some Voting"
  by (simp add: example_defs)

subsection \<open>Generation verification\<close>

lemma verify_retry:
  assumes "getPromptsForRound rid w = []" and "n < 3"
  shows "verifyAndTriggerGeneration now rid (Some n) w =
     Inr (w\<lparr>scheduler := scheduler w @
             [(nextJobId w, now + (int n + 1) * 1000,
               VerifyAndTriggerGeneration rid (Some (n + 1)))],
           nextJobId := Suc (nextJobId w)\<rparr>)"
  using assms by (simp add: verifyAndTriggerGeneration_def runAfter_def runAt_def)

lemma verify_cap:
  assumes "getPromptsForRound rid w = []" and "rounds w rid = Some r"
  shows "verifyAndTriggerGeneration now rid (Some 3) w =
     Inr (w\<lparr>rounds := (rounds w)(rid \<mapsto> r\<lparr>
               generationError := Some ''No prompts found after 3 retry attempts'',
               generationCompletedAt := Some now,
               generationExpectedCount := Some 0,
               generationCompletedCount := Some 0\<rparr>),
             scheduler := scheduler w @ [(nextJobId w, now + 2000, TransitionPhase rid)],
             nextJobId := Suc (nextJobId w)\<rparr>)"
  using assms by (simp add: verifyAndTriggerGeneration_def runAfter_def runAt_def patchRound_def)

text \<open>
  Claim C9. A round is in generating and none of its prompts is visible. The first
  verification (retry count 0, at clock reading \<open>t\<close>) schedules a retry 1000 ms later, that
  one a retry 2000 ms later, that one a retry 3000 ms later; none of them touches the
  round. The verification with retry count 3 schedules no further retry: it records the
  generation error and zero expected and completed images on the round and schedules
  \<open>transitionPhase\<close> 2000 ms later. That transition puts the round into voting, the error
  and the zero count still on it. Every step returns normally.
\<close>

theorem verifyAndTriggerGeneration_fails_open:
  assumes "rounds w rid = Some r" and "rd_status r = Generating"
    and "getPromptsForRound rid w = []"
  shows "\<exists>w1 w2 w3 w4 r'.
      verifyAndTriggerGeneration t rid (Some 0) w = Inr w1
    \<and> scheduler w1 = scheduler w @
         [(nextJobId w, t + 1000, VerifyAndTriggerGeneration rid (Some 1))]
    \<and> verifyAndTriggerGeneration (t + 1000) rid (Some 1) w1 = Inr w2
    \<and> scheduler w2 = scheduler w1 @
         [(nextJobId w1, (t + 1000) + 2000, VerifyAndTriggerGeneration rid (Some 2))]
    \<and> verifyAndTriggerGeneration (t + 3000) rid (Some 2) w2 = Inr w3
    \<and> scheduler w3 = scheduler w2 @
         [(nextJobId w2, (t + 3000) + 3000, VerifyAndTriggerGeneration rid (Some 3))]
    \<and> rounds w3 = rounds w
    \<and> verifyAndTriggerGeneration (t + 6000) rid (Some 3) w3 = Inr w4
    \<and> scheduler w4 = scheduler w3 @ [(nextJobId w3, (t + 6000) + 2000, TransitionPhase rid)]
    \<and> rounds w4 rid = Some (r\<lparr>
          generationError := Some ''No prompts found after 3 retry attempts'',
          generationCompletedAt := Some (t + 6000),
          generationExpectedCount := Some 0,
          generationCompletedCount := Some 0\<rparr>)
    \<and> rounds (transitionPhase cfg (t + 8000) rid w4) rid = Some r'
    \<and> rd_status r' = Voting
    \<and> generationError r' = Some ''No prompts found after 3 retry attempts''
    \<and> generationExpectedCount r' = Some 0"
proof -
  define w1 where "w1 = w\<lparr>scheduler := scheduler w @
      [(nextJobId w, t + 1000, VerifyAndTriggerGeneration rid (Some 1))],
      nextJobId := Suc (nextJobId w)\<rparr>"
  define w2 where "w2 = w1\<lparr>scheduler := scheduler w1 @
      [(nextJobId w1, (t + 1000) + 2000, VerifyAndTriggerGeneration rid (Some 2))],
      nextJobId := Suc (nextJobId w1)\<rparr>"
  define w3 where "w3 = w2\<lparr>scheduler := scheduler w2 @
      [(nextJobId w2, (t + 3000) + 3000, VerifyAndTriggerGeneration rid (Some 3))],
      nextJobId := Suc (nextJobId w2)\<rparr>"
  define r4 where "r4 = r\<lparr>
      generationError := Some ''No prompts found after 3 retry attempts'',
      generationCompletedAt := Some (t + 6000),
      generationExpectedCount := Some 0,
      generationCompletedCount := Some 0\<rparr>"
  define w4 where "w4 = w3\<lparr>rounds := (rounds w3)(rid \<mapsto> r4),
      scheduler := scheduler w3 @ [(nextJobId w3, (t + 6000) + 2000, TransitionPhase rid)],
      nextJobId := Suc (nextJobId w3)\<rparr>"
  have p1: "getPromptsForRound rid w1 = []"
    using assms(3) by (simp add: w1_def getPromptsForRound_def)
  have p2: "getPromptsForRound rid w2 = []"
    using p1 by (simp add: w2_def getPromptsForRound_def)
  have p3: "getPromptsForRound rid w3 = []"
    using p2 by (simp add: w3_def getPromptsForRound_def)
  have rw3: "rounds w3 = rounds w" by (simp add: w3_def w2_def w1_def)
  have v0: "verifyAndTriggerGeneration t rid (Some 0) w = Inr w1"
    using verify_retry[OF assms(3), of 0 t] by (simp add: w1_def)
  have v1: "verifyAndTriggerGeneration (t + 1000) rid (Some 1) w1 = Inr w2"
    using verify_retry[OF p1, of 1 "t + 1000"] by (simp add: w2_def)
  have v2: "verifyAndTriggerGeneration (t + 3000) rid (Some 2) w2 = Inr w3"
    using verify_retry[OF p2, of 2 "t + 3000"] by (simp add: w3_def)
  have v3: "verifyAndTriggerGeneration (t + 6000) rid (Some 3) w3 = Inr w4"
    using verify_cap[OF p3, of r "t + 6000"] assms(1) rw3 by (simp add: w4_def r4_def)
  have r4: "rounds w4 rid = Some r4" by (simp add: w4_def)
  have nd: "\<not> duplicateTransition cfg (t + 8000) r4"
    using assms(2) by (simp add: duplicateTransition_def r4_def split: option.splits)
  define r' where
    "r' = advanced cfg (t + 8000) (length (getPromptsForRound rid w4)) (nextJobId w4) r4"
  have tr: "rounds (transitionPhase cfg (t + 8000) rid w4) rid = Some r'"
    using transitionPhase_rounds[OF r4, of cfg "t + 8000"] nd by (simp add: r'_def)
  have fin: "rd_status r' = Voting"
       "generationError r' = Some ''No prompts found after 3 retry attempts''"
       "generationExpectedCount r' = Some 0"
    using assms(2) by (simp_all add: r'_def advanced_def r4_def)
  have s1: "scheduler w1 = scheduler w @
         [(nextJobId w, t + 1000, VerifyAndTriggerGeneration rid (Some 1))]"
    by (simp add: w1_def)
  have s2: "scheduler w2 = scheduler w1 @
         [(nextJobId w1, (t + 1000) + 2000, VerifyAndTriggerGeneration rid (Some 2))]"
    by (simp add: w2_def)
  have s3: "scheduler w3 = scheduler w2 @
         [(nextJobId w2, (t + 3000) + 3000, VerifyAndTriggerGeneration rid (Some 3))]"
    by (simp add: w3_def)
  have s4: "scheduler w4 = scheduler w3 @
         [(nextJobId w3, (t + 6000) + 2000, TransitionPhase rid)]"
    by (simp add: w4_def)
  show ?thesis
    using v0 s1 v1 s2 v2 s3 rw3 v3 s4 r4[unfolded r4_def] tr fin by blast
qed

theorem verifyAndTriggerGeneration_fails_open_witness:
  "\<exists>w1 w2 w3 w4 r'.
      verifyAndTriggerGeneration 31000 4 (Some 0) generatingWorld = Inr w1
    \<and> verifyAndTriggerGeneration 32000 4 (Some 1) w1 = Inr w2
    \<and> verifyAndTriggerGeneration 34000 4 (Some 2) w2 = Inr w3
    \<and> verifyAndTriggerGeneration 37000 4 (Some 3) w3 = Inr w4
    \<and> rounds (transitionPhase exampleConfig 39000 4 w4) 4 = Some r'
    \<and> rd_status r' = Voting
    \<and> generationError r' = Some ''No prompts found after 3 retry attempts''
    \<and> generationExpectedCount r' = Some 0"
proof -
  let ?r = "\<lparr>rd_roomId = 9, rd_roundNumber = 1, rd_status = Generating,
      phaseEndTime = Some 75000, scheduledTransitionId = Some 2,
      generationStartedAt = Some 30000, generationExpectedCount = Some 0,
      generationCompletedCount = Some 0, generationCompletedAt = None,
      generationError = None, endedAt = None\<rparr>"
  have s: "rd_status ?r = Generating" by simp
  have p: "getPromptsForRound 4 generatingWorld = []" by (simp add: example_defs)
  from verifyAndTriggerGeneration_fails_open[OF generatingWorld_round s p,
      of 31000 exampleConfig]
  show ?thesis by (simp del: ex_simps) blast
qed

subsection \<open>Early transition out of voting\<close>

lemma foldl_total:
  "foldl (\<lambda>sum item. sum + length (snd item)) a xs = a + sum_list (map (length \<circ> snd) xs)"
  by (induction xs arbitrary: a) simp_all

text \<open>
  Claim C10, as the code has it. For a round in voting none of whose prompts has a
  generated image, \<open>checkAllPlayersVoted\<close> returns the state it was given: the timer
  stays in the scheduler's queue, the handle stays on the round, no transition is
  scheduled. This does not depend on who is eligible or who has voted.
\<close>

theorem checkAllPlayersVoted_no_images:
  assumes "rounds w rid = Some r" and "rd_status r = Voting"
    and "\<forall>p \<in> set (prompts w). pr_roundId p = rid \<longrightarrow>
           (\<forall>i \<in> set (images w). im_promptId i \<noteq> pr_id p)"
  shows "checkAllPlayersVoted now rid w = w"
proof -
  have "\<forall>p \<in> set (getPromptsForRound rid w).
          filter (\<lambda>i. im_promptId i = pr_id p) (images w) = []"
    using assms(3) by (auto simp: getPromptsForRound_def filter_empty_conv)
  then have "foldl (\<lambda>sum item. sum + length (snd item)) 0
       (map (\<lambda>p. (p, filter (\<lambda>i. im_promptId i = pr_id p) (images w)))
         (getPromptsForRound rid w)) = 0"
    by (simp add: foldl_total comp_def)
  then show ?thesis using assms(1,2) by (simp add: checkAllPlayersVoted_def Let_def)
qed

theorem checkAllPlayersVoted_no_images_witness:
  "list_all isEligible (calculateVotingEligibility (players votingWorld)
      (getPromptsForRound 4 votingWorld))
   \<and> checkAllPlayersVoted 40000 4 votingWorld = votingWorld"
proof -
  let ?r = "\<lparr>rd_roomId = 9, rd_roundNumber = 1, rd_status = Voting,
      phaseEndTime = Some 76000, scheduledTransitionId = Some 3,
      generationStartedAt = Some 30000, generationExpectedCount = Some 0,
      generationCompletedCount = Some 0, generationCompletedAt = None,
      generationError = None, endedAt = None\<rparr>"
  have s: "rd_status ?r = Voting" by simp
  have i: "\<forall>p \<in> set (prompts votingWorld). pr_roundId p = 4 \<longrightarrow>
           (\<forall>i \<in> set (images votingWorld). im_promptId i \<noteq> pr_id p)"
    by (simp add: example_defs)
  have e: "list_all isEligible (calculateVotingEligibility (players votingWorld)
      (getPromptsForRound 4 votingWorld))"
    by (simp add: example_defs eligibilityOf_def)
  from checkAllPlayersVoted_no_images[OF votingWorld_round s i, of 40000] e
  show ?thesis by blast
qed

lemma failOpenRun_Inr: "failOpenRun = Inr failOpenWorld"
  by (simp add: failOpenWorld_def failOpenRun_def andThen_def verifyAndTriggerGeneration_def
      example_defs)

text \<open>
  Claim C10 as stated fails in its conclusion that such a round advances only when its
  phase timer fires. After the verification has given up, the round is in voting with no
  image, its handle names job 7, due at 115000; the job scheduled for the generation
  deadline, job 2, due at 106000, is still in the queue, since no transition cancels a
  job. The vote check leaves the state as it is, and job 2 moves the round to results
  at 106000, before the phase timer is due.
\<close>

theorem checkAllPlayersVoted_stale_timer_counterexample:
  "failOpenRun = Inr failOpenWorld
   \<and> rounds failOpenWorld 4 = Some
       \<lparr>rd_roomId = 9, rd_roundNumber = 1, rd_status = Voting,
        phaseEndTime = Some 115000, scheduledTransitionId = Some 7,
        generationStartedAt = Some 61000, generationExpectedCount = Some 0,
        generationCompletedCount = Some 0, generationCompletedAt = Some 68000,
        generationError = Some ''No prompts found after 3 retry attempts'',
        endedAt = None\<rparr>
   \<and> images failOpenWorld = []
   \<and> scheduler failOpenWorld = [(2, 106000, TransitionPhase 4), (7, 115000, TransitionPhase 4)]
   \<and> checkAllPlayersVoted 80000 4 failOpenWorld = failOpenWorld
   \<and> map_option rd_status
         (rounds (transitionPhase exampleConfig 106000 4 (cancel 2 failOpenWorld)) 4)
       = Some Results"
  by (simp add: failOpenWorld_def failOpenRun_def andThen_def verifyAndTriggerGeneration_def
      checkAllPlayersVoted_def example_defs)

section \<open>Properties of scoring\<close>

lemma set_update_subset: "set (AList.update k v al) \<subseteq> insert (k, v) (set al)"
  by (induction al) auto

lemma countVote_pos:
  assumes "\<forall>e \<in> set m. 0 < snd e"
  shows "\<forall>e \<in> set (countVote v m). 0 < snd e"
proof
  fix e assume "e \<in> set (countVote v m)"
  then have "e \<in> insert (imageId v,
       (case map_of m (imageId v) of None \<Rightarrow> 0 | Some c \<Rightarrow> c) + 1) (set m)"
    using set_update_subset by (fastforce simp: countVote_def Let_def)
  then show "0 < snd e" using assms by auto
qed

lemma fold_countVote_pos:
  "\<forall>e \<in> set m. 0 < snd e \<Longrightarrow> \<forall>e \<in> set (fold countVote vs m). 0 < snd e"
proof (induction vs arbitrary: m)
  case Nil
  then show ?case by simp
next
  case (Cons v vs)
  have "\<forall>e \<in> set (countVote v m). 0 < snd e" by (rule countVote_pos[OF Cons.prems])
  then show ?case using Cons.IH by simp
qed

lemma fold_countVote_nonempty: "vs \<noteq> [] \<or> m \<noteq> [] \<Longrightarrow> fold countVote vs m \<noteq> []"
  by (induction vs arbitrary: m) (simp_all add: countVote_def Let_def)

lemma findWinningImages_nonempty:
  assumes "m \<noteq> []" and "\<forall>e \<in> set m. 0 < snd e"
  shows "findWinningImages m \<noteq> []"
proof -
  have fin: "finite (snd ` set m)" and ne: "snd ` set m \<noteq> {}" using assms(1) by simp_all
  have "Max (snd ` set m) \<in> snd ` set m" by (rule Max_in[OF fin ne])
  then obtain k where kc: "(k, Max (snd ` set m)) \<in> set m" by force
  have mx: "mathMax (map snd m) = Max (snd ` set m)"
    using mathMax_Max[of "map snd m"] assms(1) by simp
  have pos: "0 < Max (snd ` set m)" using kc assms(2) by force
  have "k \<in> set (findWinningImages m)"
    using kc mx pos assms(1) by (force simp: findWinningImages_def Let_def)
  then show ?thesis by auto
qed

lemma winners_of_votes_nonempty:
  assumes "vs \<noteq> []"
  shows "findWinningImages (countVotesPerImage vs) \<noteq> []"
  unfolding countVotesPerImage_def
proof (rule findWinningImages_nonempty)
  show "fold countVote vs [] \<noteq> []" using assms by (simp add: fold_countVote_nonempty)
  show "\<forall>e \<in> set (fold countVote vs []). 0 < snd e" by (rule fold_countVote_pos) simp
qed

lemma find_patch:
  "find (\<lambda>p. p_id p = pid') (map (\<lambda>q. if p_id q = pid then q\<lparr>p_score := s\<rparr> else q) ps) =
     map_option (\<lambda>q. if p_id q = pid then q\<lparr>p_score := s\<rparr> else q)
       (find (\<lambda>p. p_id p = pid') ps)"
  by (induction ps) auto

lemma scoreOf_patchPlayer:
  "scoreOf (patchPlayer pid (\<lambda>q. q\<lparr>p_score := s\<rparr>) w) pid' =
     (if pid' = pid then map_option (\<lambda>_. s) (scoreOf w pid') else scoreOf w pid')"
proof -
  have "\<And>q. find (\<lambda>p. p_id p = pid') (players w) = Some q \<Longrightarrow> p_id q = pid'"
    by (auto simp: find_Some_iff)
  then show ?thesis
    by (cases "find (\<lambda>p. p_id p = pid') (players w)")
       (auto simp: scoreOf_def patchPlayer_def find_patch)
qed

lemma find_id_patchPlayer:
  "map_option p_id (find (\<lambda>p. p_id p = pid') (players (patchPlayer pid (\<lambda>q. q\<lparr>p_score := s\<rparr>) w)))
     = map_option p_id (find (\<lambda>p. p_id p = pid') (players w))"
  by (cases "find (\<lambda>p. p_id p = pid') (players w)") (auto simp: patchPlayer_def find_patch)

lemma imageOwner_patchPlayer [simp]:
  "imageOwner (patchPlayer pid (\<lambda>q. q\<lparr>p_score := s\<rparr>) w) iid = imageOwner w iid"
proof -
  have *: "\<And>x w'. (case find (\<lambda>p. p_id p = x) (players w') of None \<Rightarrow> None | Some pl \<Rightarrow> Some (p_id pl))
       = map_option p_id (find (\<lambda>p. p_id p = x) (players w'))"
    by (simp split: option.splits)
  have [simp]: "images (patchPlayer pid (\<lambda>q. q\<lparr>p_score := s\<rparr>) w) = images w"
     "prompts (patchPlayer pid (\<lambda>q. q\<lparr>p_score := s\<rparr>) w) = prompts w"
    by (simp_all add: patchPlayer_def)
  show ?thesis
    unfolding imageOwner_def * by (simp add: find_id_patchPlayer split: option.splits)
qed

lemma find_p_id: "find (\<lambda>p. p_id p = x) ps = Some q \<Longrightarrow> p_id q = x"
  by (induction ps) (auto split: if_splits)

lemma awardWinners_step:
  "awardWinners pts (iid # rest) w =
     (case imageOwner w iid of
        None \<Rightarrow> awardWinners pts rest w
      | Some pid \<Rightarrow>
          awardWinners pts rest
            (patchPlayer pid (\<lambda>q. q\<lparr>p_score := the (scoreOf w pid) + pts\<rparr>) w))"
proof (cases "find (\<lambda>i. im_id i = iid) (images w)")
  case None
  then show ?thesis by (simp add: imageOwner_def)
next
  case img: (Some img)
  show ?thesis
  proof (cases "find (\<lambda>p. pr_id p = im_promptId img) (prompts w)")
    case None
    then show ?thesis using img by (simp add: imageOwner_def)
  next
    case pr: (Some pr)
    show ?thesis
    proof (cases "find (\<lambda>p. p_id p = pr_playerId pr) (players w)")
      case None
      then show ?thesis using img pr by (simp add: imageOwner_def)
    next
      case pl: (Some pl)
      have id: "p_id pl = pr_playerId pr" by (rule find_p_id[OF pl])
      have sc: "scoreOf w (p_id pl) = Some (p_score pl)"
        unfolding scoreOf_def id using pl by simp
      show ?thesis using img pr pl sc by (simp add: imageOwner_def)
    qed
  qed
qed

lemma imageOwner_scoreOf:
  assumes "imageOwner w iid = Some pid"
  shows "\<exists>s. scoreOf w pid = Some s"
proof -
  from assms obtain pl x where pl: "find (\<lambda>p. p_id p = x) (players w) = Some pl"
    and pid: "pid = p_id pl"
    by (auto simp: imageOwner_def split: option.splits)
  have "p_id pl = x" by (rule find_p_id[OF pl])
  then show ?thesis using pl pid by (simp add: scoreOf_def)
qed

lemma awardWinners_scoreOf:
  "scoreOf (awardWinners pts ws w) pid =
     map_option (\<lambda>s. s + pts * int (length (filter (\<lambda>iid. imageOwner w iid = Some pid) ws)))
       (scoreOf w pid)"
proof (induction ws arbitrary: w)
  case Nil
  show ?case by (simp add: option.map_ident)
next
  case (Cons iid rest)
  show ?case
  proof (cases "imageOwner w iid")
    case None
    then show ?thesis using Cons.IH[of w] by (simp add: awardWinners_step del: awardWinners.simps)
  next
    case (Some owner)
    then obtain s where s: "scoreOf w owner = Some s" using imageOwner_scoreOf by blast
    let ?w' = "patchPlayer owner (\<lambda>q. q\<lparr>p_score := s + pts\<rparr>) w"
    have step: "awardWinners pts (iid # rest) w = awardWinners pts rest ?w'"
      using Some s by (simp add: awardWinners_step del: awardWinners.simps)
    show ?thesis
      unfolding step Cons.IH[of ?w']
      using Some s
      by (cases "scoreOf w pid")
         (auto simp: scoreOf_patchPlayer algebra_simps)
  qed
qed


lemma patch_absent:
  "pid \<notin> p_id ` set ps \<Longrightarrow> map (\<lambda>q. if p_id q = pid then f q else q) ps = ps"
  by (induction ps) auto

lemma sum_patch:
  assumes "distinct (map p_id ps)" and "find (\<lambda>p. p_id p = pid) ps = Some pl"
  shows "sum_list (map p_score (map (\<lambda>q. if p_id q = pid then q\<lparr>p_score := s\<rparr> else q) ps))
           = sum_list (map p_score ps) - p_score pl + s"
  using assms
proof (induction ps)
  case Nil
  then show ?case by simp
next
  case (Cons a ps)
  show ?case
  proof (cases "p_id a = pid")
    case True
    then have "pl = a" using Cons.prems(2) by simp
    moreover have "pid \<notin> p_id ` set ps" using Cons.prems(1) True by auto
    ultimately show ?thesis using True by (simp add: patch_absent)
  next
    case False
    then have "find (\<lambda>p. p_id p = pid) ps = Some pl" using Cons.prems(2) by simp
    moreover have "distinct (map p_id ps)" using Cons.prems(1) by simp
    ultimately show ?thesis using Cons.IH False by simp
  qed
qed

lemma ids_patchPlayer [simp]:
  "map p_id (players (patchPlayer pid (\<lambda>q. q\<lparr>p_score := s\<rparr>) w)) = map p_id (players w)"
  by (simp add: patchPlayer_def comp_def if_distrib cong: if_cong)

lemma total_patchPlayer:
  assumes "distinct (map p_id (players w))" and "scoreOf w pid = Some s"
  shows "sum_list (map p_score (players (patchPlayer pid (\<lambda>q. q\<lparr>p_score := s + pts\<rparr>) w)))
           = sum_list (map p_score (players w)) + pts"
proof -
  from assms(2) obtain pl where pl: "find (\<lambda>p. p_id p = pid) (players w) = Some pl"
    and sc: "p_score pl = s" by (auto simp: scoreOf_def)
  show ?thesis using sum_patch[OF assms(1) pl, of "s + pts"] sc by (simp add: patchPlayer_def)
qed

lemma awardWinners_total:
  assumes "distinct (map p_id (players w))"
  shows "sum_list (map p_score (players (awardWinners pts ws w))) =
     sum_list (map p_score (players w))
       + pts * int (length (filter (\<lambda>iid. imageOwner w iid \<noteq> None) ws))"
  using assms
proof (induction ws arbitrary: w)
  case Nil
  show ?case by simp
next
  case (Cons iid rest)
  show ?case
  proof (cases "imageOwner w iid")
    case None
    then show ?thesis
      using Cons.IH[OF Cons.prems] by (simp add: awardWinners_step del: awardWinners.simps)
  next
    case (Some owner)
    then obtain s where s: "scoreOf w owner = Some s" using imageOwner_scoreOf by blast
    let ?w' = "patchPlayer owner (\<lambda>q. q\<lparr>p_score := s + pts\<rparr>) w"
    have step: "awardWinners pts (iid # rest) w = awardWinners pts rest ?w'"
      using Some s by (simp add: awardWinners_step del: awardWinners.simps)
    have d: "distinct (map p_id (players ?w'))" using Cons.prems by simp
    show ?thesis
      unfolding step Cons.IH[OF d] total_patchPlayer[OF Cons.prems s]
      using Some by (simp add: algebra_simps)
  qed
qed

lemma awardParticipation_scoreOf:
  "scoreOf (awardParticipation pts A vs w) pid =
     map_option (\<lambda>s. s + (if pid \<in> voterId ` set vs \<and> pid \<notin> A then pts else 0))
       (scoreOf w pid)"
proof (induction vs arbitrary: A w)
  case Nil
  show ?case by (simp add: option.map_ident)
next
  case (Cons v rest)
  show ?case
  proof (cases "voterId v \<in> A")
    case True
    then show ?thesis using Cons.IH[of A w] by (auto intro!: map_option_cong)
  next
    case notin: False
    show ?thesis
    proof (cases "find (\<lambda>p. p_id p = voterId v) (players w)")
      case None
      then have n: "scoreOf w (voterId v) = None" by (simp add: scoreOf_def)
      show ?thesis using None notin n Cons.IH[of "insert (voterId v) A" w]
        by (cases "pid = voterId v") (auto intro!: map_option_cong)
    next
      case (Some voter)
      then have sc: "scoreOf w (voterId v) = Some (p_score voter)" by (simp add: scoreOf_def)
      let ?w' = "patchPlayer (voterId v) (\<lambda>q. q\<lparr>p_score := p_score voter + pts\<rparr>) w"
      have step: "awardParticipation pts A (v # rest) w =
                    awardParticipation pts (insert (voterId v) A) rest ?w'"
        using Some notin by simp
      show ?thesis
        unfolding step Cons.IH[of "insert (voterId v) A" ?w']
        using notin sc
        by (cases "scoreOf w pid") (auto simp: scoreOf_patchPlayer)
    qed
  qed
qed

lemma calculateScores_unfold:
  assumes "rounds w rid = Some r"
  shows "calculateScores cfg rid w =
     (if roundVotes rid w = [] then w
      else awardParticipation (POINTS_PER_VOTE cfg) {} (roundVotes rid w)
             (awardWinners
                (POINTS_PER_WIN cfg div
                   int (length (findWinningImages (countVotesPerImage (roundVotes rid w)))))
                (findWinningImages (countVotesPerImage (roundVotes rid w))) w))"
proof (cases "roundVotes rid w = []")
  case True
  then show ?thesis using assms
    by (simp add: calculateScores_def countVotesPerImage_def findWinningImages_def)
next
  case False
  then show ?thesis using assms winners_of_votes_nonempty[OF False]
    by (simp add: calculateScores_def Let_def)
qed


lemma floor_split:
  assumes "0 < (n::int)"
  shows "n * (B div n) \<le> B \<and> (n * (B div n) = B \<longleftrightarrow> n dvd B)"
proof -
  have eq: "n * (B div n) + B mod n = B" by simp
  have nonneg: "0 \<le> B mod n" using assms by simp
  have le: "n * (B div n) \<le> B" using eq nonneg by linarith
  have "n * (B div n) = B \<longleftrightarrow> B mod n = 0" using eq by linarith
  then show ?thesis using le by (simp add: dvd_eq_mod_eq_0)
qed

lemma winnerResults_entries:
  "\<forall>e \<in> set (winnerResults imgs prs q rsn ws). pointsAwarded e = q \<and> sr_reason e = rsn"
  by (induction ws) (auto split: option.splits)

lemma winnerResults_length:
  assumes "\<forall>iid \<in> set ws. \<exists>img pr. find (\<lambda>i. im_id i = iid) imgs = Some img \<and>
             find (\<lambda>p. pr_id p = im_promptId img) prs = Some pr"
  shows "length (winnerResults imgs prs q rsn ws) = length ws"
  using assms by (induction ws) (auto split: option.splits)

lemma sum_const_entries:
  "\<forall>e \<in> set es. pointsAwarded e = q \<Longrightarrow> sum_list (map pointsAwarded es) = int (length es) * q"
  by (induction es) (simp_all add: algebra_simps)

lemma participationResults_entries:
  "\<forall>e \<in> set (participationResults pts A vs). pointsAwarded e = pts \<and> sr_reason e = Participation"
  by (induction vs arbitrary: A) auto

lemma participationResults_ids:
  "set (map sr_playerId (participationResults pts A vs)) = voterId ` set vs - A
   \<and> distinct (map sr_playerId (participationResults pts A vs))"
  by (induction vs arbitrary: A) auto

lemma filter_all: "\<forall>x \<in> set xs. P x \<Longrightarrow> filter P xs = xs"
  by (induction xs) auto

lemma filter_none: "\<forall>x \<in> set xs. \<not> P x \<Longrightarrow> filter P xs = []"
  by (induction xs) auto

lemma calculateRoundScores_winner_part:
  "filter (\<lambda>e. sr_reason e \<noteq> Participation) (calculateRoundScores vs imgs prs config) =
     (let ws = findWinningImages (countVotesPerImage vs)
      in if length ws > 0 then
           winnerResults imgs prs (pointsPerWin config div int (length ws))
             (if length ws > 1 then WinnerTie else Winner) ws
         else [])"
proof -
  let ?ws = "findWinningImages (countVotesPerImage vs)"
  let ?won = "winnerResults imgs prs (pointsPerWin config div int (length ?ws))
             (if length ?ws > 1 then WinnerTie else Winner) ?ws"
  have 1: "filter (\<lambda>e. sr_reason e \<noteq> Participation) ?won = ?won"
  proof (rule filter_all, rule ballI)
    fix e assume "e \<in> set ?won"
    then have "sr_reason e = (if length ?ws > 1 then WinnerTie else Winner)"
      using winnerResults_entries by blast
    then show "sr_reason e \<noteq> Participation" by simp
  qed
  have 2: "filter (\<lambda>e. sr_reason e \<noteq> Participation)
             (participationResults (pointsPerVote config) {} vs) = []"
    by (rule filter_none) (use participationResults_entries in fastforce)
  show ?thesis using 1 2 by (simp add: calculateRoundScores_def Let_def)
qed

lemma calculateRoundScores_participation_part:
  "filter (\<lambda>e. sr_reason e = Participation) (calculateRoundScores vs imgs prs config) =
     participationResults (pointsPerVote config) {} vs"
proof -
  let ?ws = "findWinningImages (countVotesPerImage vs)"
  let ?won = "winnerResults imgs prs (pointsPerWin config div int (length ?ws))
             (if length ?ws > 1 then WinnerTie else Winner) ?ws"
  have 1: "filter (\<lambda>e. sr_reason e = Participation) ?won = []"
  proof (rule filter_none, rule ballI)
    fix e assume "e \<in> set ?won"
    then have "sr_reason e = (if length ?ws > 1 then WinnerTie else Winner)"
      using winnerResults_entries by blast
    then show "\<not> sr_reason e = Participation" by simp
  qed
  have 2: "filter (\<lambda>e. sr_reason e = Participation)
             (participationResults (pointsPerVote config) {} vs)
           = participationResults (pointsPerVote config) {} vs"
    by (rule filter_all) (use participationResults_entries in fastforce)
  show ?thesis using 1 2 by (simp add: calculateRoundScores_def Let_def)
qed

text \<open>
  Claim C5. A round with at least one vote is scored; \<open>ws\<close> are its winning images
  (\<open>n\<close> of them), each owned by a player of the store, and \<open>q\<close> is the budget
  \<open>POINTS_PER_WIN\<close> divided by \<open>n\<close>, rounded down. The winners' loop of
  \<open>calculateScores\<close> adds \<open>q\<close> to a player's score once for every winning image that
  player owns, so the scores of all players together grow by \<open>n * q\<close>; that is at most the
  budget, and equals it exactly when \<open>n\<close> divides the budget. The entries that
  \<open>calculateRoundScores\<close> lists for the winners add up to the same amount.
\<close>

theorem calculateScores_win_points:
  assumes "rounds w rid = Some r"
    and "roundVotes rid w \<noteq> []"
    and "ws = findWinningImages (countVotesPerImage (roundVotes rid w))"
    and "q = POINTS_PER_WIN cfg div int (length ws)"
    and "distinct (map p_id (players w))"
    and "\<forall>iid \<in> set ws. imageOwner w iid \<noteq> None"
  shows "calculateScores cfg rid w =
           awardParticipation (POINTS_PER_VOTE cfg) {} (roundVotes rid w) (awardWinners q ws w)
     \<and> (\<forall>pid. scoreOf (awardWinners q ws w) pid =
           map_option (\<lambda>s. s + q * int (length (filter (\<lambda>iid. imageOwner w iid = Some pid) ws)))
             (scoreOf w pid))
     \<and> sum_list (map p_score (players (awardWinners q ws w)))
           - sum_list (map p_score (players w)) = int (length ws) * q
     \<and> int (length ws) * q \<le> POINTS_PER_WIN cfg
     \<and> (int (length ws) * q = POINTS_PER_WIN cfg \<longleftrightarrow> int (length ws) dvd POINTS_PER_WIN cfg)
     \<and> ((\<forall>iid \<in> set ws. \<exists>img pr. find (\<lambda>i. im_id i = iid) imgs = Some img \<and>
             find (\<lambda>p. pr_id p = im_promptId img) prs = Some pr) \<longrightarrow>
         sum_list (map pointsAwarded (filter (\<lambda>e. sr_reason e \<noteq> Participation)
            (calculateRoundScores (roundVotes rid w) imgs prs
               \<lparr>pointsPerWin = POINTS_PER_WIN cfg, pointsPerVote = POINTS_PER_VOTE cfg\<rparr>)))
           = int (length ws) * q)"
proof -
  have ne: "ws \<noteq> []" using winners_of_votes_nonempty[OF assms(2)] assms(3) by simp
  then have pos: "0 < int (length ws)" by simp
  have 1: "calculateScores cfg rid w =
           awardParticipation (POINTS_PER_VOTE cfg) {} (roundVotes rid w) (awardWinners q ws w)"
    using calculateScores_unfold[OF assms(1), of cfg] assms(2,3,4) by simp
  have 2: "\<forall>pid. scoreOf (awardWinners q ws w) pid =
           map_option (\<lambda>s. s + q * int (length (filter (\<lambda>iid. imageOwner w iid = Some pid) ws)))
             (scoreOf w pid)"
    by (simp add: awardWinners_scoreOf)
  have all: "filter (\<lambda>iid. imageOwner w iid \<noteq> None) ws = ws"
    by (rule filter_all) (use assms(6) in blast)
  have 3: "sum_list (map p_score (players (awardWinners q ws w)))
           - sum_list (map p_score (players w)) = int (length ws) * q"
    using awardWinners_total[OF assms(5), of q ws] all by (simp add: algebra_simps)
  have 4: "int (length ws) * q \<le> POINTS_PER_WIN cfg"
    and 5: "int (length ws) * q = POINTS_PER_WIN cfg \<longleftrightarrow> int (length ws) dvd POINTS_PER_WIN cfg"
    using floor_split[OF pos, of "POINTS_PER_WIN cfg"] assms(4) by simp_all
  have 6: "sum_list (map pointsAwarded (filter (\<lambda>e. sr_reason e \<noteq> Participation)
            (calculateRoundScores (roundVotes rid w) imgs prs
               \<lparr>pointsPerWin = POINTS_PER_WIN cfg, pointsPerVote = POINTS_PER_VOTE cfg\<rparr>)))
           = int (length ws) * q"
    if res: "\<forall>iid \<in> set ws. \<exists>img pr. find (\<lambda>i. im_id i = iid) imgs = Some img \<and>
             find (\<lambda>p. pr_id p = im_promptId img) prs = Some pr"
  proof -
    let ?won = "winnerResults imgs prs q (if length ws > 1 then WinnerTie else Winner) ws"
    have "filter (\<lambda>e. sr_reason e \<noteq> Participation)
            (calculateRoundScores (roundVotes rid w) imgs prs
               \<lparr>pointsPerWin = POINTS_PER_WIN cfg, pointsPerVote = POINTS_PER_VOTE cfg\<rparr>) = ?won"
      using ne assms(3,4) by (simp add: calculateRoundScores_winner_part Let_def)
    moreover have "sum_list (map pointsAwarded ?won) = int (length ?won) * q"
      by (rule sum_const_entries) (use winnerResults_entries in blast)
    moreover have "length ?won = length ws" by (rule winnerResults_length[OF res])
    ultimately show ?thesis by simp
  qed
  from 1 2 3 4 5 6 show ?thesis by blast
qed

lemma scoringWorld_round:
  "rounds scoringWorld 4 = Some
     \<lparr>rd_roomId = 9, rd_roundNumber = 1, rd_status = Voting,
      phaseEndTime = Some 76000, scheduledTransitionId = Some 3,
      generationStartedAt = Some 30000, generationExpectedCount = Some 0,
      generationCompletedCount = Some 0, generationCompletedAt = None,
      generationError = None, endedAt = None\<rparr>"
  by (simp add: scoringWorld_def example_defs)

lemma scoringWorld_votes:
  "roundVotes 4 scoringWorld =
     [\<lparr>v_id = 21, v_roundId = 4, voterId = 1, imageId = 16\<rparr>,
      \<lparr>v_id = 22, v_roundId = 4, voterId = 2, imageId = 17\<rparr>,
      \<lparr>v_id = 23, v_roundId = 4, voterId = 3, imageId = 15\<rparr>]"
  by (simp add: roundVotes_def scoringWorld_def votingWorld_def)

lemma scoringWorld_winners:
  "findWinningImages (countVotesPerImage (roundVotes 4 scoringWorld)) = [16, 17, 15]"
  by (simp add: scoringWorld_votes countVotesPerImage_def countVote_def findWinningImages_def)

lemma scoringWorld_players:
  "players scoringWorld =
     [\<lparr>p_id = 1, p_roomId = 9, p_status = Connected, p_score = 0\<rparr>,
      \<lparr>p_id = 2, p_roomId = 9, p_status = Connected, p_score = 0\<rparr>,
      \<lparr>p_id = 3, p_roomId = 9, p_status = Connected, p_score = 0\<rparr>]"
  by (simp add: scoringWorld_def example_defs)

lemma scoringWorld_tables:
  "images scoringWorld =
     [\<lparr>im_id = 15, im_promptId = 5\<rparr>, \<lparr>im_id = 16, im_promptId = 6\<rparr>,
      \<lparr>im_id = 17, im_promptId = 7\<rparr>]"
  "prompts scoringWorld =
     [\<lparr>pr_id = 5, pr_roundId = 4, pr_playerId = 1\<rparr>,
      \<lparr>pr_id = 6, pr_roundId = 4, pr_playerId = 2\<rparr>,
      \<lparr>pr_id = 7, pr_roundId = 4, pr_playerId = 3\<rparr>]"
  by (simp_all add: scoringWorld_def votingWorld_def)

lemma scoringWorld_owners:
  "imageOwner scoringWorld 15 = Some 1" "imageOwner scoringWorld 16 = Some 2"
  "imageOwner scoringWorld 17 = Some 3"
  by (simp_all add: imageOwner_def scoringWorld_players scoringWorld_tables)

lemma scoringWorld_scores:
  "scoreOf scoringWorld 1 = Some 0" "scoreOf scoringWorld 2 = Some 0"
  "scoreOf scoringWorld 3 = Some 0"
  by (simp_all add: scoreOf_def scoringWorld_players)

theorem calculateScores_win_points_witness:
  "sum_list (map p_score (players (awardWinners 33 [16, 17, 15] scoringWorld)))
     - sum_list (map p_score (players scoringWorld)) = int (length [16, 17, 15::nat]) * 33
   \<and> int (length [16, 17, 15::nat]) * 33 \<le> POINTS_PER_WIN exampleConfig
   \<and> (int (length [16, 17, 15::nat]) * 33 = POINTS_PER_WIN exampleConfig
        \<longleftrightarrow> int (length [16, 17, 15::nat]) dvd POINTS_PER_WIN exampleConfig)"
proof -
  have v: "roundVotes 4 scoringWorld \<noteq> []" by (simp add: scoringWorld_votes)
  have q: "(33::int) = POINTS_PER_WIN exampleConfig div int (length [16, 17, 15::nat])"
    by (simp add: exampleConfig_def)
  have d: "distinct (map p_id (players scoringWorld))" by (simp add: scoringWorld_players)
  have o: "\<forall>iid \<in> set [16, 17, 15]. imageOwner scoringWorld iid \<noteq> None"
    by (simp add: scoringWorld_owners)
  note t = calculateScores_win_points[OF scoringWorld_round v scoringWorld_winners[symmetric]
      q d o]
  from t show ?thesis by blast
qed

text \<open>
  Claim C6. Scoring a round adds to every player's score the win points of the winners'
  loop and, when the player is the voter of at least one vote of the round,
  \<open>POINTS_PER_VOTE\<close>, once: the amount does not depend on how many votes name the player as
  voter, on the images the votes went to, or on whether the player owns a winning image.
  With no vote in the round the state is returned as it is. \<open>calculateRoundScores\<close> lists
  one participation entry of \<open>pointsPerVote\<close> per distinct voter and nothing for an empty
  vote list.
\<close>

theorem calculateScores_participation:
  assumes "rounds w rid = Some r"
    and "vs = roundVotes rid w"
    and "ws = findWinningImages (countVotesPerImage vs)"
    and "q = POINTS_PER_WIN cfg div int (length ws)"
  shows "(vs = [] \<longrightarrow> calculateScores cfg rid w = w)
     \<and> (\<forall>pid. scoreOf (calculateScores cfg rid w) pid =
           map_option
             (\<lambda>s. s + q * int (length (filter (\<lambda>iid. imageOwner w iid = Some pid) ws))
                     + (if pid \<in> voterId ` set vs then POINTS_PER_VOTE cfg else 0))
             (scoreOf w pid))
     \<and> (\<forall>w1 us pid. scoreOf (awardParticipation (POINTS_PER_VOTE cfg) {} us w1) pid =
           map_option (\<lambda>s. s + (if pid \<in> voterId ` set us then POINTS_PER_VOTE cfg else 0))
             (scoreOf w1 pid))
     \<and> distinct (map sr_playerId (filter (\<lambda>e. sr_reason e = Participation)
           (calculateRoundScores us imgs prs config)))
     \<and> set (map sr_playerId (filter (\<lambda>e. sr_reason e = Participation)
           (calculateRoundScores us imgs prs config))) = voterId ` set us
     \<and> (\<forall>e \<in> set (filter (\<lambda>e. sr_reason e = Participation)
           (calculateRoundScores us imgs prs config)). pointsAwarded e = pointsPerVote config)
     \<and> calculateRoundScores [] imgs prs config = []"
proof -
  have 1: "calculateScores cfg rid w = w" if "vs = []"
    using calculateScores_unfold[OF assms(1), of cfg] that assms(2) by simp
  have 3: "\<forall>w1 us pid. scoreOf (awardParticipation (POINTS_PER_VOTE cfg) {} us w1) pid =
           map_option (\<lambda>s. s + (if pid \<in> voterId ` set us then POINTS_PER_VOTE cfg else 0))
             (scoreOf w1 pid)"
    by (simp add: awardParticipation_scoreOf)
  have 2: "scoreOf (calculateScores cfg rid w) pid =
           map_option
             (\<lambda>s. s + q * int (length (filter (\<lambda>iid. imageOwner w iid = Some pid) ws))
                     + (if pid \<in> voterId ` set vs then POINTS_PER_VOTE cfg else 0))
             (scoreOf w pid)" for pid
  proof (cases "vs = []")
    case True
    then have "ws = []" using assms(3) by (simp add: countVotesPerImage_def findWinningImages_def)
    then show ?thesis using 1[OF True] True by (simp add: option.map_ident)
  next
    case False
    then have "calculateScores cfg rid w =
        awardParticipation (POINTS_PER_VOTE cfg) {} vs (awardWinners q ws w)"
      using calculateScores_unfold[OF assms(1), of cfg] assms(2,3,4) by simp
    then show ?thesis
      by (simp add: awardParticipation_scoreOf awardWinners_scoreOf option.map_comp comp_def)
  qed
  have 4: "distinct (map sr_playerId (filter (\<lambda>e. sr_reason e = Participation)
           (calculateRoundScores us imgs prs config)))"
    and 5: "set (map sr_playerId (filter (\<lambda>e. sr_reason e = Participation)
           (calculateRoundScores us imgs prs config))) = voterId ` set us"
    unfolding calculateRoundScores_participation_part
    using participationResults_ids[of "pointsPerVote config" "{}" us] by simp_all
  have 6: "\<forall>e \<in> set (filter (\<lambda>e. sr_reason e = Participation)
           (calculateRoundScores us imgs prs config)). pointsAwarded e = pointsPerVote config"
    unfolding calculateRoundScores_participation_part
    using participationResults_entries by blast
  have 7: "calculateRoundScores [] imgs prs config = []"
    by (simp add: calculateRoundScores_def countVotesPerImage_def findWinningImages_def)
  from 1 2 3 4 5 6 7 show ?thesis by blast
qed

theorem calculateScores_participation_witness:
  "map (scoreOf (calculateScores exampleConfig 4 scoringWorld)) [1, 2, 3]
     = [Some 43, Some 43, Some 43]
   \<and> calculateScores exampleConfig 4 votingWorld = votingWorld"
proof -
  have q: "(33::int) = POINTS_PER_WIN exampleConfig div int (length [16, 17, 15::nat])"
    by (simp add: exampleConfig_def)
  note t = calculateScores_participation[OF scoringWorld_round refl
      scoringWorld_winners[symmetric] q, of "[]" "[]" "[]" "\<lparr>pointsPerWin = 0, pointsPerVote = 0\<rparr>"]
  from t have s: "\<And>pid. scoreOf (calculateScores exampleConfig 4 scoringWorld) pid =
           map_option
             (\<lambda>s. s + 33 * int (length (filter (\<lambda>iid. imageOwner scoringWorld iid = Some pid)
                       [16, 17, 15]))
                     + (if pid \<in> voterId ` set (roundVotes 4 scoringWorld)
                        then POINTS_PER_VOTE exampleConfig else 0))
             (scoreOf scoringWorld pid)" by blast
  have a: "map (scoreOf (calculateScores exampleConfig 4 scoringWorld)) [1, 2, 3]
     = [Some 43, Some 43, Some 43]"
    unfolding list.map s
    by (simp add: scoringWorld_owners scoringWorld_votes scoringWorld_scores
        scoringWorld_scores(1)[unfolded One_nat_def] exampleConfig_def)
  have e: "roundVotes 4 votingWorld = []" by (simp add: roundVotes_def example_defs)
  have q0: "(0::int) = POINTS_PER_WIN exampleConfig div
              int (length (findWinningImages (countVotesPerImage (roundVotes 4 votingWorld))))"
    by (simp add: e countVotesPerImage_def findWinningImages_def)
  note u = calculateScores_participation[OF votingWorld_round refl refl q0,
      of "[]" "[]" "[]" "\<lparr>pointsPerWin = 0, pointsPerVote = 0\<rparr>"]
  from u e have b: "calculateScores exampleConfig 4 votingWorld = votingWorld" by blast
  from a b show ?thesis by blast
qed

end
